theory Spec2Isabelle
  imports Main
begin

section \<open>JavaScript values\<close>

text \<open>
  The values that \<^verbatim>\<open>response.json()\<close> can produce, plus \<^verbatim>\<open>undefined\<close>, which
  property access yields for a missing member. Numbers are integers (identifiers and
  lengths). An object is the association list of its own properties; property access
  does not see the inherited members of \<^verbatim>\<open>Object.prototype\<close> (info hashes are
  hexadecimal strings and never name one). Strings are byte strings, and
  \<^verbatim>\<open>toLowerCase\<close> acts on the ASCII letters.
\<close>

datatype val =
    JUndefined
  | JNull
  | JBool bool
  | JNum int
  | JStr string
  | JArr "val list"
  | JObj "(string \<times> val) list"

fun truthy :: "val \<Rightarrow> bool" where
  "truthy JUndefined = False"
| "truthy JNull = False"
| "truthy (JBool b) = b"
| "truthy (JNum n) = (n \<noteq> 0)"
| "truthy (JStr s) = (s \<noteq> [])"
| "truthy (JArr xs) = True"
| "truthy (JObj kvs) = True"

text \<open>The values thrown: by a property access on \<^verbatim>\<open>null\<close>/\<^verbatim>\<open>undefined\<close> or a call
  of a non-function (TypeError), by \<^verbatim>\<open>response.json()\<close> on a body that is not JSON
  (SyntaxError), by \<^verbatim>\<open>fetch\<close> on a transport failure (FetchError), and by the explicit
  \<^verbatim>\<open>throw new Error(`... API error: ${response.status}`)\<close> (ApiError).\<close>

datatype js_error = TypeError | SyntaxError | FetchError | ApiError nat

definition thenE :: "js_error + 'a \<Rightarrow> ('a \<Rightarrow> js_error + 'b) \<Rightarrow> js_error + 'b" where
  "thenE m f = (case m of Inl e \<Rightarrow> Inl e | Inr x \<Rightarrow> f x)"

definition is_digit :: "char \<Rightarrow> bool" where
  "is_digit c = (48 \<le> (of_char c :: nat) \<and> (of_char c :: nat) \<le> 57)"

definition digits_value :: "string \<Rightarrow> nat" where
  "digits_value s = foldl (\<lambda>a c. 10 * a + (of_char c - 48)) 0 s"

text \<open>A property name is an array index when it is the canonical decimal spelling of a
  number: digits only, no leading zero.\<close>

definition array_index :: "string \<Rightarrow> nat option" where
  "array_index s =
     (if s \<noteq> [] \<and> list_all is_digit s \<and> (length s = 1 \<or> hd s \<noteq> CHR ''0'')
      then Some (digits_value s) else None)"

text \<open>Property access \<^verbatim>\<open>v[k]\<close> / \<^verbatim>\<open>v.k\<close>: a TypeError on \<^verbatim>\<open>null\<close> and
  \<^verbatim>\<open>undefined\<close>, \<^verbatim>\<open>undefined\<close> for a missing member.\<close>

fun get :: "val \<Rightarrow> string \<Rightarrow> js_error + val" where
  "get JUndefined k = Inl TypeError"
| "get JNull k = Inl TypeError"
| "get (JBool b) k = Inr JUndefined"
| "get (JNum n) k = Inr JUndefined"
| "get (JStr s) k =
     Inr (if k = ''length'' then JNum (int (length s))
          else case array_index k of
                 Some i \<Rightarrow> if i < length s then JStr [s ! i] else JUndefined
               | None \<Rightarrow> JUndefined)"
| "get (JArr xs) k =
     Inr (if k = ''length'' then JNum (int (length xs))
          else case array_index k of
                 Some i \<Rightarrow> if i < length xs then xs ! i else JUndefined
               | None \<Rightarrow> JUndefined)"
| "get (JObj kvs) k = Inr (case map_of kvs k of Some v \<Rightarrow> v | None \<Rightarrow> JUndefined)"

text \<open>Optional chaining \<^verbatim>\<open>v?.k\<close> and the default \<^verbatim>\<open>v || d\<close>.\<close>

definition opt_chain :: "val \<Rightarrow> string \<Rightarrow> val" where
  "opt_chain v k = (case get v k of Inl e \<Rightarrow> JUndefined | Inr x \<Rightarrow> x)"

definition or_else :: "val \<Rightarrow> val \<Rightarrow> val" where
  "or_else v d = (if truthy v then v else d)"

subsection \<open>The comparison \<^verbatim>\<open>v > 0\<close>\<close>

text \<open>
  \<^verbatim>\<open>v > 0\<close> converts \<open>v\<close> to a number and is false for NaN. A string is trimmed of
  white space and read as a numeric literal (StringToNumber): the empty string is 0, a
  hexadecimal, octal or binary literal has no sign, a decimal literal has an optional
  sign, fraction and exponent, and anything else is NaN. The value of a decimal literal
  with digits \<open>m\<close> and decimal exponent \<open>k\<close> rounds to a positive Number exactly when
  \<open>m\<close> times 10 to the power \<open>k\<close> exceeds 2 to the power -1075, half the least
  positive double. White space is the ASCII white space (TAB, LF, VT, FF, CR, SP).
\<close>

definition is_space :: "char \<Rightarrow> bool" where
  "is_space c = ((of_char c :: nat) \<in> {9, 10, 11, 12, 13, 32})"

definition trim :: "string \<Rightarrow> string" where
  "trim s = rev (dropWhile is_space (rev (dropWhile is_space s)))"

text \<open>The digits after \<^verbatim>\<open>0x\<close>, \<^verbatim>\<open>0o\<close> or \<^verbatim>\<open>0b\<close>: at least one, all of the radix, and
  the value is positive when one of them is not \<^verbatim>\<open>0\<close>.\<close>

definition radix_positive :: "string \<Rightarrow> string \<Rightarrow> bool" where
  "radix_positive digits ds =
     (ds \<noteq> [] \<and> list_all (\<lambda>c. c \<in> set digits) ds \<and> list_ex (\<lambda>c. c \<noteq> CHR ''0'') ds)"

definition unsigned_digits :: "string \<Rightarrow> int option" where
  "unsigned_digits ds =
     (if ds \<noteq> [] \<and> list_all is_digit ds then Some (int (digits_value ds)) else None)"

text \<open>What follows the mantissa: nothing, or \<^verbatim>\<open>e\<close>/\<^verbatim>\<open>E\<close>, an optional sign and at least
  one digit.\<close>

definition exponent_part :: "string \<Rightarrow> int option" where
  "exponent_part r =
     (case r of
        [] \<Rightarrow> Some 0
      | c # r1 \<Rightarrow>
          if c = CHR ''e'' \<or> c = CHR ''E'' then
            (case r1 of
               [] \<Rightarrow> None
             | d # r2 \<Rightarrow>
                 if d = CHR ''+'' then unsigned_digits r2
                 else if d = CHR ''-'' then map_option uminus (unsigned_digits r2)
                 else unsigned_digits r1)
          else None)"

text \<open>An unsigned decimal literal (\<^verbatim>\<open>12\<close>, \<^verbatim>\<open>12.\<close>, \<^verbatim>\<open>12.5\<close>, \<^verbatim>\<open>.5\<close>, each with an
  optional exponent) whose value rounds to a positive Number.\<close>

definition decimal_positive :: "string \<Rightarrow> bool" where
  "decimal_positive s =
     (let ip = takeWhile is_digit s;
          r = dropWhile is_digit s;
          dot = (r \<noteq> [] \<and> hd r = CHR ''.'');
          fp = (if dot then takeWhile is_digit (tl r) else []);
          r' = (if dot then dropWhile is_digit (tl r) else r)
      in if ip = [] \<and> fp = [] then False
         else case exponent_part r' of
                None \<Rightarrow> False
              | Some e \<Rightarrow>
                  (let m = digits_value (ip @ fp); k = e - int (length fp)
                   in 0 < m \<and> (0 \<le> k \<or> (10 :: int) ^ nat (- k) < int m * 2 ^ 1075)))"

definition string_gt_zero :: "string \<Rightarrow> bool" where
  "string_gt_zero s =
     (let t = trim s in
      if take 2 t = ''0x'' \<or> take 2 t = ''0X'' then
        radix_positive ''0123456789abcdefABCDEF'' (drop 2 t)
      else if take 2 t = ''0o'' \<or> take 2 t = ''0O'' then radix_positive ''01234567'' (drop 2 t)
      else if take 2 t = ''0b'' \<or> take 2 t = ''0B'' then radix_positive ''01'' (drop 2 t)
      else if t = [] \<or> hd t = CHR ''-'' then False
      else (let v = (if hd t = CHR ''+'' then tl t else t)
            in v = ''Infinity'' \<or> decimal_positive v))"

text \<open>
  An array or an object is first converted to a string. An array joins the strings of
  its elements with commas (\<^verbatim>\<open>null\<close> and \<^verbatim>\<open>undefined\<close> give the empty string); an
  object gives \<^verbatim>\<open>[object Object]\<close>, unless it has a member of its own named
  \<^verbatim>\<open>toString\<close>: a parsed value is never callable, so no conversion method is left and
  the conversion is a TypeError.
\<close>

fun show_nat :: "nat \<Rightarrow> string" where
  "show_nat n =
     (if n < 10 then [char_of (48 + n)] else show_nat (n div 10) @ [char_of (48 + n mod 10)])"

declare show_nat.simps [simp del]

definition show_int :: "int \<Rightarrow> string" where
  "show_int i = (if i < 0 then CHR ''-'' # show_nat (nat (- i)) else show_nat (nat i))"

fun to_string :: "val \<Rightarrow> js_error + string"
  and join_all :: "val list \<Rightarrow> js_error + string" where
  "to_string JUndefined = Inr []"
| "to_string JNull = Inr []"
| "to_string (JBool b) = Inr (if b then ''true'' else ''false'')"
| "to_string (JNum n) = Inr (show_int n)"
| "to_string (JStr s) = Inr s"
| "to_string (JArr xs) = join_all xs"
| "to_string (JObj kvs) =
     (if ''toString'' \<in> fst ` set kvs then Inl TypeError else Inr ''[object Object]'')"
| "join_all [] = Inr []"
| "join_all [x] = to_string x"
| "join_all (x # y # ys) =
     (case to_string x of
        Inl e \<Rightarrow> Inl e
      | Inr a \<Rightarrow> (case join_all (y # ys) of Inl e \<Rightarrow> Inl e | Inr b \<Rightarrow> Inr (a @ '','' @ b)))"

text \<open>\<^verbatim>\<open>v > 0\<close>: \<^verbatim>\<open>undefined\<close> is NaN, \<^verbatim>\<open>null\<close> is 0, \<^verbatim>\<open>true\<close> is 1.\<close>

fun gt_zero :: "val \<Rightarrow> js_error + bool" where
  "gt_zero JUndefined = Inr False"
| "gt_zero JNull = Inr False"
| "gt_zero (JBool b) = Inr b"
| "gt_zero (JNum n) = Inr (0 < n)"
| "gt_zero (JStr s) = Inr (string_gt_zero s)"
| "gt_zero (JArr xs) =
     (case join_all xs of Inl e \<Rightarrow> Inl e | Inr s \<Rightarrow> Inr (string_gt_zero s))"
| "gt_zero (JObj kvs) =
     (case to_string (JObj kvs) of Inl e \<Rightarrow> Inl e | Inr s \<Rightarrow> Inr (string_gt_zero s))"

subsection \<open>Strings and loops\<close>

definition lower_char :: "char \<Rightarrow> char" where
  "lower_char c =
     (let n = (of_char c :: nat) in if 65 \<le> n \<and> n \<le> 90 then char_of (n + 32) else c)"

definition toLowerCase :: "string \<Rightarrow> string" where
  "toLowerCase s = map lower_char s"

text \<open>\<^verbatim>\<open>array.forEach(callback)\<close> with a callback that may throw: the state reached before
  the throw stays (the callbacks below assign as their last step).\<close>

fun forEach :: "('s \<Rightarrow> 'a \<Rightarrow> js_error + 's) \<Rightarrow> 'a list \<Rightarrow> 's \<Rightarrow> js_error option \<times> 's" where
  "forEach f [] s = (None, s)"
| "forEach f (x # xs) s = (case f s x of Inl e \<Rightarrow> (Some e, s) | Inr s' \<Rightarrow> forEach f xs s')"

section \<open>HTTP\<close>

text \<open>A response carries its status and its body; \<open>body = None\<close> is a body on which
  \<^verbatim>\<open>response.json()\<close> rejects. \<^verbatim>\<open>response.ok\<close> is a status in 200..299. A request is
  kept structured: the endpoint and the hashes it carries
  (\<^verbatim>\<open>/torrents/instantAvailability/h1/h2/...\<close>, the JSON body \<^verbatim>\<open>{hashes, ...}\<close>, the
  pipe-joined magnet list).\<close>

datatype response = Response (status: nat) (body: "val option")

definition ok :: "response \<Rightarrow> bool" where
  "ok r = (200 \<le> status r \<and> status r \<le> 299)"

datatype fetch_outcome = Rejected | Resolved response

datatype request =
    RDInstantAvailability "string list"
  | TorboxCheckCached "string list"
  | AllDebridInstant "string list"

datatype event = Fetch request | Sleep nat

section \<open>Provider clients (src/unnamed/part_000)\<close>

datatype payload = Variants val | Files val

record cache_status =
  cached :: val
  payload :: payload
  downloadLink :: val
  service :: string

type_synonym results = "string \<rightharpoonup> cache_status"

text \<open>The loop \<^verbatim>\<open>hashes.forEach(hash => { results[hash.toLowerCase()] = st })\<close> of the
  failure branches.\<close>

definition mark_all :: "cache_status \<Rightarrow> string list \<Rightarrow> results \<Rightarrow> results" where
  "mark_all st hs results = foldl (\<lambda>r hash. r(toLowerCase hash \<mapsto> st)) results hs"

subsection \<open>RealDebrid.checkCache\<close>

definition rd_uncached :: cache_status where
  "rd_uncached =
     \<lparr>cached = JBool False, payload = Variants (JArr []), downloadLink = JNull,
      service = ''Real-Debrid''\<rparr>"

text \<open>\<^verbatim>\<open>cacheInfo && cacheInfo.rd && cacheInfo.rd.length > 0\<close>\<close>

definition rd_isCached :: "val \<Rightarrow> js_error + val" where
  "rd_isCached cacheInfo =
     (if \<not> truthy cacheInfo then Inr cacheInfo
      else thenE (get cacheInfo ''rd'') (\<lambda>rd.
        if \<not> truthy rd then Inr rd
        else thenE (get rd ''length'') (\<lambda>n.
          thenE (gt_zero n) (\<lambda>positive. Inr (JBool positive)))))"

definition rd_status :: "val \<Rightarrow> val \<Rightarrow> cache_status" where
  "rd_status cacheInfo isCached =
     \<lparr>cached = isCached,
      payload = Variants (or_else (opt_chain cacheInfo ''rd'') (JArr [])),
      downloadLink = JNull, service = ''Real-Debrid''\<rparr>"

definition rd_store :: "val \<Rightarrow> results \<Rightarrow> string \<Rightarrow> js_error + results" where
  "rd_store data results hash =
     (let hashLower = toLowerCase hash in
      thenE (get data hashLower) (\<lambda>cacheInfo.
      thenE (rd_isCached cacheInfo) (\<lambda>isCached.
        Inr (results(hashLower \<mapsto> rd_status cacheInfo isCached)))))"

text \<open>The \<^verbatim>\<open>try\<close> block of one iteration, at offset \<open>i\<close> with its batch. The outcome of
  the request at offset \<open>i\<close> is \<open>fetch i request\<close>.\<close>

definition rd_try ::
  "(nat \<Rightarrow> request \<Rightarrow> fetch_outcome) \<Rightarrow> string list \<Rightarrow> nat \<Rightarrow> string list \<Rightarrow>
   results \<times> event list \<Rightarrow> js_error option \<times> (results \<times> event list)" where
  "rd_try fetch hashes i batch s =
     (case s of (results, trace) \<Rightarrow>
      let trace1 = trace @ [Fetch (RDInstantAvailability batch)] in
      (case fetch i (RDInstantAvailability batch) of
         Rejected \<Rightarrow> (Some FetchError, (results, trace1))
       | Resolved response \<Rightarrow>
           (case body response of
              None \<Rightarrow> (Some SyntaxError, (results, trace1))
            | Some data \<Rightarrow>
                (case (if ok response then forEach (rd_store data) batch results
                       else (None, mark_all rd_uncached batch results)) of
                   (Some e, results') \<Rightarrow> (Some e, (results', trace1))
                 | (None, results') \<Rightarrow>
                     (None, (results',
                        if i + 40 < length hashes then trace1 @ [Sleep 500] else trace1))))))"

text \<open>One iteration: the \<^verbatim>\<open>try\<close> block and its \<^verbatim>\<open>catch\<close>.\<close>

definition rd_iteration ::
  "(nat \<Rightarrow> request \<Rightarrow> fetch_outcome) \<Rightarrow> string list \<Rightarrow> nat \<Rightarrow>
   results \<times> event list \<Rightarrow> results \<times> event list" where
  "rd_iteration fetch hashes i s =
     (let batch = take 40 (drop i hashes) in
      case rd_try fetch hashes i batch s of
        (None, s') \<Rightarrow> s'
      | (Some e, (results', trace')) \<Rightarrow> (mark_all rd_uncached batch results', trace'))"

function rd_loop ::
  "(nat \<Rightarrow> request \<Rightarrow> fetch_outcome) \<Rightarrow> string list \<Rightarrow> nat \<Rightarrow>
   results \<times> event list \<Rightarrow> results \<times> event list" where
  "rd_loop fetch hashes i s =
     (if i < length hashes then rd_loop fetch hashes (i + 40) (rd_iteration fetch hashes i s)
      else s)"
  by pat_completeness auto
termination
  by (relation "measure (\<lambda>(fetch, hashes, i, s). length hashes - i)") auto

definition RealDebrid_checkCache ::
  "(nat \<Rightarrow> request \<Rightarrow> fetch_outcome) \<Rightarrow> string list \<Rightarrow> js_error + (results \<times> event list)" where
  "RealDebrid_checkCache fetch hashes =
     (if hashes = [] then Inr (Map.empty, [])
      else Inr (rd_loop fetch hashes 0 (Map.empty, [])))"

subsection \<open>Torbox.checkCache\<close>

definition tb_uncached :: cache_status where
  "tb_uncached =
     \<lparr>cached = JBool False, payload = Files (JArr []), downloadLink = JNull,
      service = ''Torbox''\<rparr>"

text \<open>The entry built from \<^verbatim>\<open>cacheInfo\<close>, with \<^verbatim>\<open>isCached = !!cacheInfo\<close>.\<close>

definition tb_status :: "val \<Rightarrow> cache_status" where
  "tb_status cacheInfo =
     \<lparr>cached = JBool (truthy cacheInfo),
      payload = Files (or_else (opt_chain cacheInfo ''files'') (JArr [])),
      downloadLink = JNull, service = ''Torbox''\<rparr>"

definition tb_store :: "val \<Rightarrow> results \<Rightarrow> string \<Rightarrow> js_error + results" where
  "tb_store dataData results hash =
     (let hashLower = toLowerCase hash in
      thenE (get dataData hashLower) (\<lambda>cacheInfo.
        Inr (results(hashLower \<mapsto> tb_status cacheInfo))))"

definition tb_try ::
  "(request \<Rightarrow> fetch_outcome) \<Rightarrow> string list \<Rightarrow> results \<Rightarrow> js_error option \<times> results" where
  "tb_try fetch hashes results =
     (case fetch (TorboxCheckCached hashes) of
        Rejected \<Rightarrow> (Some FetchError, results)
      | Resolved response \<Rightarrow>
          if \<not> ok response then (Some (ApiError (status response)), results)
          else
            (case body response of
               None \<Rightarrow> (Some SyntaxError, results)
             | Some data \<Rightarrow>
                 (case get data ''success'' of
                    Inl e \<Rightarrow> (Some e, results)
                  | Inr success \<Rightarrow>
                      if \<not> truthy success then (None, results)
                      else
                        (case get data ''data'' of
                           Inl e \<Rightarrow> (Some e, results)
                         | Inr dataData \<Rightarrow>
                             if \<not> truthy dataData then (None, results)
                             else forEach (tb_store dataData) hashes results))))"

definition Torbox_checkCache ::
  "(request \<Rightarrow> fetch_outcome) \<Rightarrow> string list \<Rightarrow> js_error + results" where
  "Torbox_checkCache fetch hashes =
     (if hashes = [] then Inr Map.empty
      else case tb_try fetch hashes Map.empty of
             (None, results) \<Rightarrow> Inr results
           | (Some e, results) \<Rightarrow> Inr (mark_all tb_uncached hashes results))"

subsection \<open>AllDebrid.checkCache\<close>

definition ad_uncached :: cache_status where
  "ad_uncached =
     \<lparr>cached = JBool False, payload = Files (JArr []), downloadLink = JNull,
      service = ''AllDebrid''\<rparr>"

text \<open>The entry built from \<^verbatim>\<open>magnet.instant\<close> and \<^verbatim>\<open>magnet.files\<close>, with
  \<^verbatim>\<open>isCached = magnet.instant === true\<close>.\<close>

definition ad_status :: "val \<Rightarrow> val \<Rightarrow> cache_status" where
  "ad_status instant files =
     \<lparr>cached = JBool (instant = JBool True),
      payload = Files (or_else files (JArr [])),
      downloadLink = JNull, service = ''AllDebrid''\<rparr>"

text \<open>The callback of \<^verbatim>\<open>data.data.magnets.forEach((magnet, index) => ...)\<close>:
  \<^verbatim>\<open>hashes[index]\<close> is \<^verbatim>\<open>undefined\<close> beyond the input, and \<^verbatim>\<open>.toLowerCase()\<close> on it is
  a TypeError.\<close>

definition ad_store :: "string list \<Rightarrow> results \<Rightarrow> nat \<times> val \<Rightarrow> js_error + results" where
  "ad_store hashes results im =
     (case im of (index, magnet) \<Rightarrow>
      if index < length hashes then
        (let hash = toLowerCase (hashes ! index) in
         thenE (get magnet ''instant'') (\<lambda>instant.
         thenE (get magnet ''files'') (\<lambda>files.
           Inr (results(hash \<mapsto> ad_status instant files)))))
      else Inl TypeError)"

text \<open>\<^verbatim>\<open>magnets.forEach\<close> is a function only on an array.\<close>

definition ad_forEach :: "string list \<Rightarrow> val \<Rightarrow> results \<Rightarrow> js_error option \<times> results" where
  "ad_forEach hashes magnets results =
     (case magnets of
        JArr ms \<Rightarrow> forEach (ad_store hashes) (enumerate 0 ms) results
      | _ \<Rightarrow> (Some TypeError, results))"

definition ad_try ::
  "(request \<Rightarrow> fetch_outcome) \<Rightarrow> string list \<Rightarrow> results \<Rightarrow> js_error option \<times> results" where
  "ad_try fetch hashes results =
     (case fetch (AllDebridInstant hashes) of
        Rejected \<Rightarrow> (Some FetchError, results)
      | Resolved response \<Rightarrow>
          if \<not> ok response then (Some (ApiError (status response)), results)
          else
            (case body response of
               None \<Rightarrow> (Some SyntaxError, results)
             | Some data \<Rightarrow>
                 (case get data ''status'' of
                    Inl e \<Rightarrow> (Some e, results)
                  | Inr st \<Rightarrow>
                      if st \<noteq> JStr ''success'' then (None, results)
                      else
                        (case get data ''data'' of
                           Inl e \<Rightarrow> (Some e, results)
                         | Inr dataData \<Rightarrow>
                             if \<not> truthy dataData then (None, results)
                             else
                               (case get dataData ''magnets'' of
                                  Inl e \<Rightarrow> (Some e, results)
                                | Inr magnets \<Rightarrow>
                                    if \<not> truthy magnets then (None, results)
                                    else ad_forEach hashes magnets results)))))"

definition AllDebrid_checkCache ::
  "(request \<Rightarrow> fetch_outcome) \<Rightarrow> string list \<Rightarrow> js_error + results" where
  "AllDebrid_checkCache fetch hashes =
     (if hashes = [] then Inr Map.empty
      else case ad_try fetch hashes Map.empty of
             (None, results) \<Rightarrow> Inr results
           | (Some e, results) \<Rightarrow> Inr (mark_all ad_uncached hashes results))"

subsection \<open>checkAllDebridCaches\<close>

text \<open>A client is seen through its \<^verbatim>\<open>checkCache\<close>: the promise it returns is
  rejected (\<open>Inl\<close>, with an Error object) or fulfilled with a result map (\<open>Inr\<close>).
  A member of \<^verbatim>\<open>services\<close> that is \<^verbatim>\<open>null\<close> is \<open>None\<close>.\<close>

type_synonym client = "string list \<Rightarrow> js_error + results"

record services =
  realdebrid :: "client option"
  torbox :: "client option"
  alldebrid :: "client option"
  useRealDebrid :: bool
  useTorbox :: bool
  useAllDebrid :: bool

record cacheResults =
  realdebrid :: results
  torbox :: results
  alldebrid :: results

datatype provider = RealDebrid | Torbox | AllDebrid

text \<open>\<^verbatim>\<open>promise.then(result => { field = result }).catch(err => console.error(...))\<close>:
  the field stays as it was when the promise is rejected.\<close>

definition settle :: "js_error + results \<Rightarrow> results \<Rightarrow> results" where
  "settle promise field = (case promise of Inr result \<Rightarrow> result | Inl err \<Rightarrow> field)"

text \<open>The three checks write three different fields, so the order in which the promises
  settle does not show in the result; the second component lists the clients whose
  \<^verbatim>\<open>checkCache\<close> was called.\<close>

definition checkAllDebridCaches ::
  "string list \<Rightarrow> services \<Rightarrow> js_error + (cacheResults \<times> provider list)" where
  "checkAllDebridCaches hashes svc =
     (let c0 = \<lparr>cacheResults.realdebrid = Map.empty, torbox = Map.empty, alldebrid = Map.empty\<rparr>;
          s1 = (case (useRealDebrid svc, services.realdebrid svc) of
                  (True, Some cl) \<Rightarrow>
                    (c0\<lparr>cacheResults.realdebrid := settle (cl hashes) (cacheResults.realdebrid c0)\<rparr>,
                     [RealDebrid])
                | _ \<Rightarrow> (c0, []));
          s2 = (case (useTorbox svc, services.torbox svc) of
                  (True, Some cl) \<Rightarrow>
                    ((fst s1)\<lparr>cacheResults.torbox := settle (cl hashes) (cacheResults.torbox (fst s1))\<rparr>,
                     snd s1 @ [Torbox])
                | _ \<Rightarrow> s1);
          s3 = (case (useAllDebrid svc, services.alldebrid svc) of
                  (True, Some cl) \<Rightarrow>
                    ((fst s2)\<lparr>cacheResults.alldebrid := settle (cl hashes) (cacheResults.alldebrid (fst s2))\<rparr>,
                     snd s2 @ [AllDebrid])
                | _ \<Rightarrow> s2)
      in Inr s3)"

section \<open>Identifier conversion (src/lib/id-converter.cjs)\<close>

text \<open>The two requests: \<^verbatim>\<open>/find/${imdbId}?...&external_source=imdb_id\<close> and
  \<^verbatim>\<open>/${mediaType}/${tmdbId}?...&append_to_response=external_ids\<close>. The arguments follow
  the JSDoc types: \<^verbatim>\<open>imdbId\<close> a string or null, \<^verbatim>\<open>tmdbId\<close> a number or null,
  \<^verbatim>\<open>type\<close> a string or missing.\<close>

datatype tmdb_request = Find string | Details string int

record lookup_result =
  tmdbId :: val
  type :: val

record id_pair =
  imdbId :: val
  tmdbId :: val

definition no_match :: lookup_result where
  "no_match = \<lparr>lookup_result.tmdbId = JNull, type = JNull\<rparr>"

text \<open>\<^verbatim>\<open>data[category] && data[category].length > 0\<close>\<close>

definition has_results :: "val \<Rightarrow> string \<Rightarrow> js_error + bool" where
  "has_results data category =
     thenE (get data category) (\<lambda>rs.
       if \<not> truthy rs then Inr False
       else thenE (get rs ''length'') gt_zero)"

text \<open>\<^verbatim>\<open>data[category][0][field]\<close>\<close>

definition first_field :: "val \<Rightarrow> string \<Rightarrow> string \<Rightarrow> js_error + val" where
  "first_field data category field =
     thenE (get data category) (\<lambda>rs.
     thenE (get rs ''0'') (\<lambda>el. get el field))"

definition imdb_try :: "(tmdb_request \<Rightarrow> fetch_outcome) \<Rightarrow> string \<Rightarrow> js_error + lookup_result" where
  "imdb_try fetch imdb_id =
     (case fetch (Find imdb_id) of
        Rejected \<Rightarrow> Inl FetchError
      | Resolved response \<Rightarrow>
          if \<not> ok response then Inr no_match
          else
            (case body response of
               None \<Rightarrow> Inl SyntaxError
             | Some data \<Rightarrow>
                 thenE (has_results data ''movie_results'') (\<lambda>movie.
                   if movie then
                     thenE (first_field data ''movie_results'' ''id'') (\<lambda>tmdb_id.
                       Inr \<lparr>lookup_result.tmdbId = tmdb_id, type = JStr ''movie''\<rparr>)
                   else
                 thenE (has_results data ''tv_results'') (\<lambda>tv.
                   if tv then
                     thenE (first_field data ''tv_results'' ''id'') (\<lambda>tmdb_id.
                       Inr \<lparr>lookup_result.tmdbId = tmdb_id, type = JStr ''series''\<rparr>)
                   else
                 thenE (has_results data ''tv_episode_results'') (\<lambda>episode.
                   if episode then
                     thenE (first_field data ''tv_episode_results'' ''show_id'') (\<lambda>tmdb_id.
                       Inr \<lparr>lookup_result.tmdbId = tmdb_id, type = JStr ''series''\<rparr>)
                   else Inr no_match)))))"

text \<open>Each function returns its value with the requests it issued. The parameters
  \<^verbatim>\<open>imdbId\<close>, \<^verbatim>\<open>tmdbId\<close> and \<^verbatim>\<open>type\<close> are written \<open>imdb_id\<close>, \<open>tmdb_id\<close> and
  \<open>media_type\<close>, the source's names being those of the result's fields.\<close>

definition imdbToTmdb ::
  "(tmdb_request \<Rightarrow> fetch_outcome) \<Rightarrow> string option \<Rightarrow>
   js_error + (lookup_result \<times> tmdb_request list)" where
  "imdbToTmdb fetch imdb_id =
     (case imdb_id of
        None \<Rightarrow> Inr (no_match, [])
      | Some s \<Rightarrow>
          if s = [] \<or> take 2 s \<noteq> ''tt'' then Inr (no_match, [])
          else
            (case imdb_try fetch s of
               Inr r \<Rightarrow> Inr (r, [Find s])
             | Inl error \<Rightarrow> Inr (no_match, [Find s])))"

definition tmdb_try ::
  "(tmdb_request \<Rightarrow> fetch_outcome) \<Rightarrow> int \<Rightarrow> string \<Rightarrow> js_error + val" where
  "tmdb_try fetch tmdb_id mediaType =
     (case fetch (Details mediaType tmdb_id) of
        Rejected \<Rightarrow> Inl FetchError
      | Resolved response \<Rightarrow>
          if \<not> ok response then Inr JNull
          else
            (case body response of
               None \<Rightarrow> Inl SyntaxError
             | Some data \<Rightarrow>
                 thenE (get data ''external_ids'') (\<lambda>external_ids.
                   if \<not> truthy external_ids then Inr JNull
                   else thenE (get external_ids ''imdb_id'') (\<lambda>imdb_id.
                     if truthy imdb_id then Inr imdb_id else Inr JNull))))"

definition tmdbToImdb ::
  "(tmdb_request \<Rightarrow> fetch_outcome) \<Rightarrow> int option \<Rightarrow> string option \<Rightarrow>
   js_error + (val \<times> tmdb_request list)" where
  "tmdbToImdb fetch tmdb_id media_type =
     (case (tmdb_id, media_type) of
        (Some n, Some t) \<Rightarrow>
          if n = 0 \<or> t = [] then Inr (JNull, [])
          else
            (let mediaType = (if t = ''series'' then ''tv'' else ''movie'') in
             case tmdb_try fetch n mediaType of
               Inr v \<Rightarrow> Inr (v, [Details mediaType n])
             | Inl error \<Rightarrow> Inr (JNull, [Details mediaType n]))
      | _ \<Rightarrow> Inr (JNull, []))"

text \<open>Truthiness of the two optional arguments: a string that is present and not empty,
  a number that is present and not zero.\<close>

definition present_string :: "string option \<Rightarrow> bool" where
  "present_string x = (case x of None \<Rightarrow> False | Some s \<Rightarrow> s \<noteq> [])"

definition present_number :: "int option \<Rightarrow> bool" where
  "present_number x = (case x of None \<Rightarrow> False | Some n \<Rightarrow> n \<noteq> 0)"

definition completeIds ::
  "(tmdb_request \<Rightarrow> fetch_outcome) \<Rightarrow> string option \<Rightarrow> int option \<Rightarrow> string option \<Rightarrow>
   js_error + (id_pair \<times> tmdb_request list)" where
  "completeIds fetch imdb_id tmdb_id media_type =
     (if present_string imdb_id \<and> present_number tmdb_id then
        Inr (\<lparr>imdbId = JStr (the imdb_id), tmdbId = JNum (the tmdb_id)\<rparr>, [])
      else if present_string imdb_id \<and> \<not> present_number tmdb_id then
        thenE (imdbToTmdb fetch imdb_id) (\<lambda>(result, reqs).
          Inr (\<lparr>imdbId = JStr (the imdb_id), tmdbId = lookup_result.tmdbId result\<rparr>, reqs))
      else if \<not> present_string imdb_id \<and> present_number tmdb_id then
        thenE (tmdbToImdb fetch tmdb_id media_type) (\<lambda>(convertedImdbId, reqs).
          Inr (\<lparr>imdbId = convertedImdbId, tmdbId = JNum (the tmdb_id)\<rparr>, reqs))
      else Inr (\<lparr>imdbId = JNull, tmdbId = JNull\<rparr>, []))"

section \<open>Vocabulary of the specification\<close>

text \<open>A request fails when \<^verbatim>\<open>fetch\<close> throws (transport error) or the response is not
  2xx.\<close>

definition failed :: "fetch_outcome \<Rightarrow> bool" where
  "failed outcome = (case outcome of Rejected \<Rightarrow> True | Resolved response \<Rightarrow> \<not> ok response)"

text \<open>A 2xx response whose JSON body does not carry a successful flag: for Torbox a falsy
  \<^verbatim>\<open>success\<close> or \<^verbatim>\<open>data\<close> member; for AllDebrid a \<^verbatim>\<open>status\<close> other than
  \<^verbatim>\<open>'success'\<close>, a falsy \<^verbatim>\<open>data\<close> or \<^verbatim>\<open>data.magnets\<close> member, or a magnets array with
  fewer than \<open>n\<close> elements.\<close>

definition tb_unsuccessful :: "fetch_outcome \<Rightarrow> bool" where
  "tb_unsuccessful outcome =
     (case outcome of
        Rejected \<Rightarrow> False
      | Resolved response \<Rightarrow>
          ok response \<and>
          (case body response of
             None \<Rightarrow> False
           | Some data \<Rightarrow>
               (case get data ''success'' of
                  Inl e \<Rightarrow> False
                | Inr success \<Rightarrow>
                    \<not> truthy success \<or>
                    (case get data ''data'' of
                       Inl e \<Rightarrow> False
                     | Inr dataData \<Rightarrow> \<not> truthy dataData))))"

definition ad_unsuccessful :: "nat \<Rightarrow> fetch_outcome \<Rightarrow> bool" where
  "ad_unsuccessful n outcome =
     (case outcome of
        Rejected \<Rightarrow> False
      | Resolved response \<Rightarrow>
          ok response \<and>
          (case body response of
             None \<Rightarrow> False
           | Some data \<Rightarrow>
               (case get data ''status'' of
                  Inl e \<Rightarrow> False
                | Inr st \<Rightarrow>
                    st \<noteq> JStr ''success'' \<or>
                    (case get data ''data'' of
                       Inl e \<Rightarrow> False
                     | Inr dataData \<Rightarrow>
                         \<not> truthy dataData \<or>
                         (case get dataData ''magnets'' of
                            Inl e \<Rightarrow> False
                          | Inr magnets \<Rightarrow>
                              \<not> truthy magnets \<or>
                              (case magnets of JArr ms \<Rightarrow> length ms < n | _ \<Rightarrow> False))))))"

text \<open>The keys of a result map are lowercased spellings of input hashes, and no two keys
  spell the same hash in different case.\<close>

definition keys_lowercased_within :: "results \<Rightarrow> string list \<Rightarrow> bool" where
  "keys_lowercased_within r hashes =
     (dom r \<subseteq> toLowerCase ` set hashes \<and>
      (\<forall>k \<in> dom r. toLowerCase k = k) \<and>
      (\<forall>k \<in> dom r. \<forall>k' \<in> dom r. toLowerCase k = toLowerCase k' \<longrightarrow> k = k'))"

text \<open>The requests of a trace, and the sequential batches of at most 40 hashes, in input
  order, from offset \<open>i\<close> on.\<close>

definition requests_of :: "event list \<Rightarrow> request list" where
  "requests_of trace = concat (map (\<lambda>ev. case ev of Fetch q \<Rightarrow> [q] | Sleep ms \<Rightarrow> []) trace)"

function batches_from :: "nat \<Rightarrow> string list \<Rightarrow> string list list" where
  "batches_from i hashes =
     (if i < length hashes then take 40 (drop i hashes) # batches_from (i + 40) hashes else [])"
  by pat_completeness auto
termination
  by (relation "measure (\<lambda>(i, hashes). length hashes - i)") auto

text \<open>The map that holds \<open>st\<close> under the lowercased spelling of every hash.\<close>

definition all_marked :: "cache_status \<Rightarrow> string list \<Rightarrow> results" where
  "all_marked st hashes = (\<lambda>k. if k \<in> toLowerCase ` set hashes then Some st else None)"

text \<open>The entry a provider contributes to the aggregate: the map its \<^verbatim>\<open>checkCache\<close>
  fulfilled with; the empty map when the provider is disabled, has no client, or its
  \<^verbatim>\<open>checkCache\<close> rejected.\<close>

definition provider_entry :: "bool \<Rightarrow> client option \<Rightarrow> string list \<Rightarrow> results" where
  "provider_entry use cl hashes =
     (case (use, cl) of
        (True, Some c) \<Rightarrow> (case c hashes of Inr r \<Rightarrow> r | Inl e \<Rightarrow> Map.empty)
      | _ \<Rightarrow> Map.empty)"

section \<open>Example inputs\<close>

text \<open>Networks and responses on which the theorems below are instantiated.\<close>

definition all_rejected :: "request \<Rightarrow> fetch_outcome" where
  "all_rejected q = Rejected"

text \<open>A 200 response whose body is \<^verbatim>\<open>{"success": false}\<close>, and one whose body is
  \<^verbatim>\<open>{"status": "error"}\<close>.\<close>

definition success_false :: "request \<Rightarrow> fetch_outcome" where
  "success_false q = Resolved (Response 200 (Some (JObj [(''success'', JBool False)])))"

definition status_error :: "request \<Rightarrow> fetch_outcome" where
  "status_error q = Resolved (Response 200 (Some (JObj [(''status'', JStr ''error'')])))"

definition rd_all_rejected :: "nat \<Rightarrow> request \<Rightarrow> fetch_outcome" where
  "rd_all_rejected i q = Rejected"

text \<open>85 distinct hashes, and a network on which the first batch meets a transport error
  and every later batch a 200 response with the body \<^verbatim>\<open>{}\<close>.\<close>

definition hashes85 :: "string list" where
  "hashes85 = map (\<lambda>n. replicate (Suc n) CHR ''a'') [0..<85]"

definition first_batch_rejected :: "nat \<Rightarrow> request \<Rightarrow> fetch_outcome" where
  "first_batch_rejected i q = (if i = 0 then Rejected else Resolved (Response 200 (Some (JObj []))))"

text \<open>Torbox: a successful response whose data map holds \<^verbatim>\<open>null\<close> under the hash, and
  one that holds an entry for \<^verbatim>\<open>ab\<close> only.\<close>

definition tb_null_entry :: "request \<Rightarrow> fetch_outcome" where
  "tb_null_entry q =
     Resolved (Response 200 (Some (JObj
       [(''success'', JBool True), (''data'', JObj [(''ab'', JNull)])])))"

definition tb_one_entry :: "request \<Rightarrow> fetch_outcome" where
  "tb_one_entry q =
     Resolved (Response 200 (Some (JObj
       [(''success'', JBool True),
        (''data'', JObj [(''ab'', JObj [(''files'', JArr [])])])])))"

text \<open>AllDebrid: a successful response of two magnets, each naming the other's hash.\<close>

definition ad_two_magnets :: "val list" where
  "ad_two_magnets =
     [JObj [(''hash'', JStr ''cd''), (''instant'', JBool True)],
      JObj [(''hash'', JStr ''ab''), (''instant'', JBool False)]]"

definition ad_swapped :: "request \<Rightarrow> fetch_outcome" where
  "ad_swapped q =
     Resolved (Response 200 (Some (JObj
       [(''status'', JStr ''success''),
        (''data'', JObj [(''magnets'', JArr ad_two_magnets)])])))"

text \<open>Services in which the RealDebrid client rejects, the Torbox client fulfils with a
  one-entry map, and AllDebrid is disabled.\<close>

definition rejecting_client :: client where
  "rejecting_client hashes = Inl FetchError"

definition fulfilling_client :: client where
  "fulfilling_client hashes = Inr [''ab'' \<mapsto> tb_uncached]"

definition example_services :: services where
  "example_services =
     \<lparr>services.realdebrid = Some rejecting_client, torbox = Some fulfilling_client,
      alldebrid = Some fulfilling_client,
      useRealDebrid = True, useTorbox = True, useAllDebrid = False\<rparr>"

text \<open>The lookup service of the specification's examples: the forward lookup of
  \<^verbatim>\<open>tt0111161\<close> finds a movie with id 278, the reverse lookup of the series 1396 finds
  the external id \<^verbatim>\<open>tt0903747\<close>; every other request meets a transport error.\<close>

definition find_response :: val where
  "find_response =
     JObj [(''movie_results'', JArr [JObj [(''id'', JNum 278)]]),
           (''tv_results'', JArr []),
           (''tv_episode_results'', JArr [])]"

definition details_response :: val where
  "details_response =
     JObj [(''id'', JNum 1396), (''external_ids'', JObj [(''imdb_id'', JStr ''tt0903747'')])]"

definition tmdb_service :: "tmdb_request \<Rightarrow> fetch_outcome" where
  "tmdb_service q =
     (if q = Find ''tt0111161'' then Resolved (Response 200 (Some find_response))
      else if q = Details ''tv'' 1396 then Resolved (Response 200 (Some details_response))
      else Rejected)"

text \<open>A forward lookup that matches an episode only, and one that matches nothing.\<close>

definition episode_response :: val where
  "episode_response =
     JObj [(''movie_results'', JArr []),
           (''tv_results'', JArr []),
           (''tv_episode_results'', JArr [JObj [(''id'', JNum 62085), (''show_id'', JNum 1396)]])]"

definition episode_service :: "tmdb_request \<Rightarrow> fetch_outcome" where
  "episode_service q = Resolved (Response 200 (Some episode_response))"

definition empty_response :: val where
  "empty_response =
     JObj [(''movie_results'', JArr []), (''tv_results'', JArr []),
           (''tv_episode_results'', JArr [])]"

definition empty_service :: "tmdb_request \<Rightarrow> fetch_outcome" where
  "empty_service q = Resolved (Response 200 (Some empty_response))"

text \<open>AllDebrid: a successful response whose second magnet is \<^verbatim>\<open>null\<close>.\<close>

definition ad_null_magnet :: "request \<Rightarrow> fetch_outcome" where
  "ad_null_magnet q =
     Resolved (Response 200 (Some (JObj
       [(''status'', JStr ''success''),
        (''data'', JObj [(''magnets'', JArr [JObj [(''instant'', JBool True)], JNull])])])))"

text \<open>A forward lookup whose movie category holds \<^verbatim>\<open>null\<close> as its first element, next to
  a series match; and one whose movie category is an object with the length \<^verbatim>\<open>"1"\<close>.\<close>

definition null_movie_response :: val where
  "null_movie_response =
     JObj [(''movie_results'', JArr [JNull]),
           (''tv_results'', JArr [JObj [(''id'', JNum 1396)]]),
           (''tv_episode_results'', JArr [])]"

definition null_movie_service :: "tmdb_request \<Rightarrow> fetch_outcome" where
  "null_movie_service q = Resolved (Response 200 (Some null_movie_response))"

definition string_length_response :: val where
  "string_length_response =
     JObj [(''movie_results'', JObj [(''length'', JStr ''1''), (''0'', JObj [(''id'', JNum 278)])]),
           (''tv_results'', JArr [JObj [(''id'', JNum 1396)]])]"

definition string_length_service :: "tmdb_request \<Rightarrow> fetch_outcome" where
  "string_length_service q = Resolved (Response 200 (Some string_length_response))"

section \<open>Properties of the provider clients\<close>

subsection \<open>Keys of the result maps\<close>

lemma lower_char_idem: "lower_char (lower_char c) = lower_char c"
  by (simp add: lower_char_def Let_def)

lemma toLowerCase_idem: "toLowerCase (toLowerCase s) = toLowerCase s"
  by (simp add: toLowerCase_def lower_char_idem)

lemma mark_all_apply:
  "mark_all st hs r k = (if k \<in> toLowerCase ` set hs then Some st else r k)"
  unfolding mark_all_def
  by (induction hs arbitrary: r) auto

lemma dom_mark_all: "dom (mark_all st hs r) = dom r \<union> toLowerCase ` set hs"
  by (auto simp: mark_all_apply dom_def)

lemma forEach_dom_None:
  assumes f: "\<And>r x r'. f r x = Inr r' \<Longrightarrow> dom r' = insert (key x) (dom r)"
    and run: "forEach f xs r = (None, r')"
  shows "dom r' = dom r \<union> key ` set xs"
  using run
proof (induction xs arbitrary: r)
  case Nil
  then show ?case by simp
next
  case (Cons x xs)
  then show ?case
    by (auto split: sum.splits dest!: f)
qed

lemma forEach_dom_bounds:
  assumes f: "\<And>r x r'. f r x = Inr r' \<Longrightarrow> dom r' = insert (key x) (dom r)"
    and run: "forEach f xs r = (eo, r')"
  shows "dom r \<subseteq> dom r' \<and> dom r' \<subseteq> dom r \<union> key ` set xs"
  using run
proof (induction xs arbitrary: r)
  case Nil
  then show ?case by simp
next
  case (Cons x xs)
  show ?case
  proof (cases "f r x")
    case (Inl e)
    with Cons.prems show ?thesis by auto
  next
    case (Inr r1)
    with Cons.prems have "forEach f xs r1 = (eo, r')" by simp
    from Cons.IH[OF this] f[OF Inr] show ?thesis by auto
  qed
qed

lemma rd_store_dom: "rd_store data r h = Inr r' \<Longrightarrow> dom r' = insert (toLowerCase h) (dom r)"
  by (auto simp: rd_store_def thenE_def Let_def split: sum.splits)

lemma tb_store_dom: "tb_store d r h = Inr r' \<Longrightarrow> dom r' = insert (toLowerCase h) (dom r)"
  by (auto simp: tb_store_def thenE_def Let_def split: sum.splits)

lemma ad_store_dom:
  "ad_store hs r im = Inr r' \<Longrightarrow> dom r' = insert (toLowerCase (hs ! fst im)) (dom r) \<and> fst im < length hs"
  by (auto simp: ad_store_def thenE_def Let_def split: sum.splits if_splits prod.splits)

lemma rd_forEach_bounds:
  "forEach (rd_store data) xs r = (eo, r') \<Longrightarrow>
   dom r \<subseteq> dom r' \<and> dom r' \<subseteq> dom r \<union> toLowerCase ` set xs"
  by (rule forEach_dom_bounds[where key = toLowerCase]) (rule rd_store_dom)

lemma rd_forEach_None:
  "forEach (rd_store data) xs r = (None, r') \<Longrightarrow> dom r' = dom r \<union> toLowerCase ` set xs"
  by (rule forEach_dom_None[where key = toLowerCase]) (rule rd_store_dom)

lemma rd_try_dom:
  assumes "rd_try fetch hashes i batch (r, tr) = (eo, (r1, tr1))"
  shows "dom r \<subseteq> dom r1 \<and> dom r1 \<subseteq> dom r \<union> toLowerCase ` set batch \<and>
         (eo = None \<longrightarrow> dom r1 = dom r \<union> toLowerCase ` set batch)"
proof (cases "fetch i (RDInstantAvailability batch)")
  case Rejected
  with assms show ?thesis by (auto simp: rd_try_def Let_def)
next
  case (Resolved response)
  show ?thesis
  proof (cases "body response")
    case None
    with Resolved assms show ?thesis by (auto simp: rd_try_def Let_def)
  next
    case (Some data)
    show ?thesis
    proof (cases "ok response")
      case True
      obtain eo' r' where fe: "forEach (rd_store data) batch r = (eo', r')"
        by (cases "forEach (rd_store data) batch r")
      from assms Resolved Some True fe have "eo = eo'" "r1 = r'"
        by (auto simp: rd_try_def Let_def split: option.splits)
      with rd_forEach_bounds[OF fe] rd_forEach_None[of data batch r r'] fe
      show ?thesis by blast
    next
      case False
      with assms Resolved Some have "eo = None" "r1 = mark_all rd_uncached batch r"
        by (auto simp: rd_try_def Let_def)
      then show ?thesis by (auto simp: dom_mark_all)
    qed
  qed
qed

lemma rd_iteration_dom:
  "dom (fst (rd_iteration fetch hashes i (r, tr))) =
   dom r \<union> toLowerCase ` set (take 40 (drop i hashes))"
proof -
  let ?batch = "take 40 (drop i hashes)"
  obtain eo r1 tr1 where t: "rd_try fetch hashes i ?batch (r, tr) = (eo, (r1, tr1))"
    by (metis prod.exhaust)
  note d = rd_try_dom[OF t]
  show ?thesis
  proof (cases eo)
    case None
    with t d show ?thesis by (simp add: rd_iteration_def Let_def)
  next
    case (Some e)
    with t d show ?thesis by (auto simp: rd_iteration_def Let_def dom_mark_all)
  qed
qed

lemma rd_loop_dom:
  "dom (fst (rd_loop fetch hashes i s)) = dom (fst s) \<union> toLowerCase ` set (drop i hashes)"
proof (induction fetch hashes i s rule: rd_loop.induct)
  case (1 fetch hashes i s)
  show ?case
  proof (cases "i < length hashes")
    case True
    have split: "set (drop i hashes) = set (take 40 (drop i hashes)) \<union> set (drop (i + 40) hashes)"
      by (metis add.commute append_take_drop_id drop_drop set_append)
    obtain r tr where s: "s = (r, tr)" by (cases s)
    from True 1 show ?thesis
      by (subst rd_loop.simps) (auto simp: s rd_iteration_dom split)
  next
    case False
    then show ?thesis by (subst rd_loop.simps) simp
  qed
qed

lemma tb_forEach_bounds:
  "forEach (tb_store d) xs r = (eo, r') \<Longrightarrow>
   dom r \<subseteq> dom r' \<and> dom r' \<subseteq> dom r \<union> toLowerCase ` set xs"
  by (rule forEach_dom_bounds[where key = toLowerCase]) (rule tb_store_dom)

lemma tb_forEach_None:
  "forEach (tb_store d) xs r = (None, r') \<Longrightarrow> dom r' = dom r \<union> toLowerCase ` set xs"
  by (rule forEach_dom_None[where key = toLowerCase]) (rule tb_store_dom)

lemma tb_try_dom:
  "tb_try fetch hashes r = (eo, r') \<Longrightarrow>
   dom r \<subseteq> dom r' \<and> dom r' \<subseteq> dom r \<union> toLowerCase ` set hashes"
  by (auto simp: tb_try_def split: fetch_outcome.splits option.splits if_splits sum.splits
      dest!: tb_forEach_bounds)

lemma ad_forEach_bounds:
  assumes "forEach (ad_store hs) ims r = (eo, r')"
  shows "dom r \<subseteq> dom r' \<and> dom r' \<subseteq> dom r \<union> toLowerCase ` set hs"
  using assms
proof (induction ims arbitrary: r)
  case Nil
  then show ?case by simp
next
  case (Cons im ims)
  show ?case
  proof (cases "ad_store hs r im")
    case (Inl e)
    with Cons.prems show ?thesis by auto
  next
    case (Inr r1)
    with Cons.prems have "forEach (ad_store hs) ims r1 = (eo, r')" by simp
    from Cons.IH[OF this] ad_store_dom[OF Inr] show ?thesis by auto
  qed
qed

lemma ad_try_dom:
  "ad_try fetch hashes r = (eo, r') \<Longrightarrow>
   dom r \<subseteq> dom r' \<and> dom r' \<subseteq> dom r \<union> toLowerCase ` set hashes"
  by (auto simp: ad_try_def ad_forEach_def
      split: fetch_outcome.splits option.splits if_splits sum.splits val.splits
      dest!: ad_forEach_bounds)

lemma RealDebrid_keys:
  "RealDebrid_checkCache fetch hashes = Inr (r, tr) \<Longrightarrow> dom r = toLowerCase ` set hashes"
  using rd_loop_dom[of fetch hashes 0 "(Map.empty, [])"]
  by (auto simp: RealDebrid_checkCache_def split: if_splits)

lemma Torbox_keys:
  assumes "Torbox_checkCache fetch hashes = Inr r"
  shows "dom r \<subseteq> toLowerCase ` set hashes"
proof (cases "hashes = []")
  case True
  with assms show ?thesis by (simp add: Torbox_checkCache_def)
next
  case False
  obtain eo r0 where t: "tb_try fetch hashes Map.empty = (eo, r0)"
    by (cases "tb_try fetch hashes Map.empty")
  from tb_try_dom[OF t] have d: "dom r0 \<subseteq> toLowerCase ` set hashes" by simp
  from assms False t have "r = r0 \<or> r = mark_all tb_uncached hashes r0"
    by (auto simp: Torbox_checkCache_def split: option.splits)
  with d show ?thesis by (elim disjE) (simp_all add: dom_mark_all)
qed

lemma AllDebrid_keys:
  assumes "AllDebrid_checkCache fetch hashes = Inr r"
  shows "dom r \<subseteq> toLowerCase ` set hashes"
proof (cases "hashes = []")
  case True
  with assms show ?thesis by (simp add: AllDebrid_checkCache_def)
next
  case False
  obtain eo r0 where t: "ad_try fetch hashes Map.empty = (eo, r0)"
    by (cases "ad_try fetch hashes Map.empty")
  from ad_try_dom[OF t] have d: "dom r0 \<subseteq> toLowerCase ` set hashes" by simp
  from assms False t have "r = r0 \<or> r = mark_all ad_uncached hashes r0"
    by (auto simp: AllDebrid_checkCache_def split: option.splits)
  with d show ?thesis by (elim disjE) (simp_all add: dom_mark_all)
qed

lemma keys_lowercased_withinI:
  assumes "dom r \<subseteq> toLowerCase ` set hashes"
  shows "keys_lowercased_within r hashes"
proof -
  have low: "toLowerCase k = k" if "k \<in> dom r" for k
  proof -
    from that assms obtain h where "k = toLowerCase h" by blast
    then show ?thesis by (simp add: toLowerCase_idem)
  qed
  then have "k = k'" if "k \<in> dom r" "k' \<in> dom r" "toLowerCase k = toLowerCase k'" for k k'
    using that by metis
  with low assms show ?thesis
    unfolding keys_lowercased_within_def by blast
qed

lemma RealDebrid_returns: "\<exists>r tr. RealDebrid_checkCache fetch H = Inr (r, tr)"
  by (cases "rd_loop fetch H 0 (Map.empty, [])") (simp add: RealDebrid_checkCache_def)

lemma Torbox_returns: "\<exists>r. Torbox_checkCache fetch H = Inr r"
  by (simp add: Torbox_checkCache_def split: prod.splits option.splits)

lemma AllDebrid_returns: "\<exists>r. AllDebrid_checkCache fetch H = Inr r"
  by (simp add: AllDebrid_checkCache_def split: prod.splits option.splits)

text \<open>
  C9. For each of the three clients and every input sequence \<open>H\<close>, \<^verbatim>\<open>checkCache\<close>
  returns a map whose keys are all lowercased strings, each the lowercasing of some hash
  of \<open>H\<close>, and no two keys are spellings of one hash in different case.
\<close>

theorem checkCache_keys_lowercased:
  "(\<exists>r tr. RealDebrid_checkCache fetch1 H = Inr (r, tr) \<and> keys_lowercased_within r H) \<and>
   (\<exists>r. Torbox_checkCache fetch2 H = Inr r \<and> keys_lowercased_within r H) \<and>
   (\<exists>r. AllDebrid_checkCache fetch3 H = Inr r \<and> keys_lowercased_within r H)"
proof (intro conjI)
  from RealDebrid_returns obtain r tr where rd: "RealDebrid_checkCache fetch1 H = Inr (r, tr)"
    by blast
  from RealDebrid_keys[OF rd] have "keys_lowercased_within r H"
    by (intro keys_lowercased_withinI) simp
  with rd show "\<exists>r tr. RealDebrid_checkCache fetch1 H = Inr (r, tr) \<and> keys_lowercased_within r H"
    by blast
next
  from Torbox_returns obtain r where tb: "Torbox_checkCache fetch2 H = Inr r"
    by blast
  from Torbox_keys[OF tb] have "keys_lowercased_within r H"
    by (rule keys_lowercased_withinI)
  with tb show "\<exists>r. Torbox_checkCache fetch2 H = Inr r \<and> keys_lowercased_within r H"
    by blast
next
  from AllDebrid_returns obtain r where ad: "AllDebrid_checkCache fetch3 H = Inr r"
    by blast
  from AllDebrid_keys[OF ad] have "keys_lowercased_within r H"
    by (rule keys_lowercased_withinI)
  with ad show "\<exists>r. AllDebrid_checkCache fetch3 H = Inr r \<and> keys_lowercased_within r H"
    by blast
qed

lemma lower_AB: "toLowerCase ''AB'' = ''ab''"
  by code_simp

lemma lower_ab: "toLowerCase ''ab'' = ''ab''"
  by code_simp

lemma Torbox_all_rejected_AB:
  "Torbox_checkCache all_rejected [''AB'', ''ab''] = Inr [''ab'' \<mapsto> tb_uncached]"
  by (simp add: Torbox_checkCache_def tb_try_def all_rejected_def mark_all_def lower_AB lower_ab)

theorem checkCache_keys_lowercased_witness:
  "Torbox_checkCache all_rejected [''AB'', ''ab''] = Inr [''ab'' \<mapsto> tb_uncached] \<and>
   keys_lowercased_within [''ab'' \<mapsto> tb_uncached] [''AB'', ''ab'']"
  using checkCache_keys_lowercased[of "\<lambda>i. all_rejected" "[''AB'', ''ab'']" all_rejected all_rejected]
  by (simp add: Torbox_all_rejected_AB)

subsection \<open>Totality over the input\<close>

lemma tb_try_None:
  assumes "tb_try fetch H r = (None, r')"
    and "\<not> tb_unsuccessful (fetch (TorboxCheckCached H))"
  shows "dom r' = dom r \<union> toLowerCase ` set H"
  using assms
  by (auto simp: tb_try_def tb_unsuccessful_def
      split: fetch_outcome.splits option.splits if_splits sum.splits
      dest!: tb_forEach_None)

lemma ad_forEach_None:
  assumes "forEach (ad_store hs) (enumerate k ms) r = (None, r')"
  shows "(ms \<noteq> [] \<longrightarrow> k + length ms \<le> length hs) \<and>
         dom r' = dom r \<union> toLowerCase ` set (take (length ms) (drop k hs))"
  using assms
proof (induction ms arbitrary: k r)
  case Nil
  then show ?case by simp
next
  case (Cons m ms)
  show ?case
  proof (cases "ad_store hs r (k, m)")
    case (Inl e)
    with Cons.prems show ?thesis by simp
  next
    case (Inr r1)
    with Cons.prems have run: "forEach (ad_store hs) (enumerate (Suc k) ms) r1 = (None, r')"
      by simp
    from ad_store_dom[OF Inr] have k: "k < length hs"
      and d1: "dom r1 = insert (toLowerCase (hs ! k)) (dom r)" by simp_all
    from k have dr: "drop k hs = hs ! k # drop (Suc k) hs"
      by (simp add: Cons_nth_drop_Suc)
    from Cons.IH[OF run] d1 k show ?thesis
      by (cases "ms = []") (auto simp: dr)
  qed
qed

lemma ad_try_None:
  assumes "ad_try fetch H r = (None, r')"
    and "\<not> ad_unsuccessful (length H) (fetch (AllDebridInstant H))"
  shows "dom r' = dom r \<union> toLowerCase ` set H"
proof -
  from assms obtain ms where run: "forEach (ad_store H) (enumerate 0 ms) r = (None, r')"
    and len: "length H \<le> length ms"
    by (auto simp: ad_try_def ad_unsuccessful_def ad_forEach_def
        split: fetch_outcome.splits option.splits if_splits sum.splits val.splits)
  from ad_forEach_None[OF run] len show ?thesis by (cases "ms = []") auto
qed

lemma Torbox_total:
  assumes "\<not> tb_unsuccessful (fetch (TorboxCheckCached H))"
    and "Torbox_checkCache fetch H = Inr r"
  shows "dom r = toLowerCase ` set H"
proof (cases "H = []")
  case True
  with assms show ?thesis by (simp add: Torbox_checkCache_def)
next
  case False
  obtain eo r0 where t: "tb_try fetch H Map.empty = (eo, r0)"
    by (cases "tb_try fetch H Map.empty")
  show ?thesis
  proof (cases eo)
    case None
    with assms False t have "r = r0" by (simp add: Torbox_checkCache_def)
    with tb_try_None[of fetch H Map.empty r0] assms t None show ?thesis by simp
  next
    case (Some e)
    with assms False t have "r = mark_all tb_uncached H r0" by (simp add: Torbox_checkCache_def)
    with tb_try_dom[OF t] show ?thesis by (auto simp: dom_mark_all)
  qed
qed

lemma AllDebrid_total:
  assumes "\<not> ad_unsuccessful (length H) (fetch (AllDebridInstant H))"
    and "AllDebrid_checkCache fetch H = Inr r"
  shows "dom r = toLowerCase ` set H"
proof (cases "H = []")
  case True
  with assms show ?thesis by (simp add: AllDebrid_checkCache_def)
next
  case False
  obtain eo r0 where t: "ad_try fetch H Map.empty = (eo, r0)"
    by (cases "ad_try fetch H Map.empty")
  show ?thesis
  proof (cases eo)
    case None
    with assms False t have "r = r0" by (simp add: AllDebrid_checkCache_def)
    with ad_try_None[of fetch H Map.empty r0] assms t None show ?thesis by simp
  next
    case (Some e)
    with assms False t have "r = mark_all ad_uncached H r0" by (simp add: AllDebrid_checkCache_def)
    with ad_try_dom[OF t] show ?thesis by (auto simp: dom_mark_all)
  qed
qed

text \<open>
  C1, as the code has it. \<^verbatim>\<open>checkCache\<close> returns a map in which every input hash
  appears as a key, after lowercasing: for RealDebrid in every outcome; for Torbox and
  AllDebrid in every outcome other than a 2xx response whose JSON body does not carry a
  successful flag (Torbox: \<^verbatim>\<open>success\<close> or \<^verbatim>\<open>data\<close> falsy; AllDebrid: \<^verbatim>\<open>status\<close> not
  \<^verbatim>\<open>'success'\<close>, \<^verbatim>\<open>data\<close> or \<^verbatim>\<open>data.magnets\<close> falsy, or fewer magnets than hashes).
  HTTP failure, transport error and an unreadable body are all covered.
\<close>

theorem checkCache_total_amended:
  "(\<exists>r tr. RealDebrid_checkCache fetch1 H = Inr (r, tr) \<and> (\<forall>h \<in> set H. toLowerCase h \<in> dom r)) \<and>
   (\<not> tb_unsuccessful (fetch2 (TorboxCheckCached H)) \<longrightarrow>
      (\<exists>r. Torbox_checkCache fetch2 H = Inr r \<and> (\<forall>h \<in> set H. toLowerCase h \<in> dom r))) \<and>
   (\<not> ad_unsuccessful (length H) (fetch3 (AllDebridInstant H)) \<longrightarrow>
      (\<exists>r. AllDebrid_checkCache fetch3 H = Inr r \<and> (\<forall>h \<in> set H. toLowerCase h \<in> dom r)))"
proof (intro conjI impI)
  from RealDebrid_returns obtain r tr where rd: "RealDebrid_checkCache fetch1 H = Inr (r, tr)"
    by blast
  from RealDebrid_keys[OF rd] have "\<forall>h \<in> set H. toLowerCase h \<in> dom r" by blast
  with rd show "\<exists>r tr. RealDebrid_checkCache fetch1 H = Inr (r, tr) \<and> (\<forall>h \<in> set H. toLowerCase h \<in> dom r)"
    by blast
next
  assume flag: "\<not> tb_unsuccessful (fetch2 (TorboxCheckCached H))"
  from Torbox_returns obtain r where tb: "Torbox_checkCache fetch2 H = Inr r"
    by blast
  from Torbox_total[OF flag tb] have "\<forall>h \<in> set H. toLowerCase h \<in> dom r" by blast
  with tb show "\<exists>r. Torbox_checkCache fetch2 H = Inr r \<and> (\<forall>h \<in> set H. toLowerCase h \<in> dom r)"
    by blast
next
  assume flag: "\<not> ad_unsuccessful (length H) (fetch3 (AllDebridInstant H))"
  from AllDebrid_returns obtain r where ad: "AllDebrid_checkCache fetch3 H = Inr r"
    by blast
  from AllDebrid_total[OF flag ad] have "\<forall>h \<in> set H. toLowerCase h \<in> dom r" by blast
  with ad show "\<exists>r. AllDebrid_checkCache fetch3 H = Inr r \<and> (\<forall>h \<in> set H. toLowerCase h \<in> dom r)"
    by blast
qed

theorem checkCache_total_amended_witness:
  "\<not> tb_unsuccessful (all_rejected (TorboxCheckCached [''AB'', ''ab''])) \<and>
   \<not> ad_unsuccessful (length [''AB'', ''ab'']) (all_rejected (AllDebridInstant [''AB'', ''ab''])) \<and>
   (\<exists>r. Torbox_checkCache all_rejected [''AB'', ''ab''] = Inr r \<and> ''ab'' \<in> dom r) \<and>
   (\<exists>r. AllDebrid_checkCache all_rejected [''AB'', ''ab''] = Inr r \<and> ''ab'' \<in> dom r)"
  using checkCache_total_amended[of "\<lambda>i. all_rejected" "[''AB'', ''ab'']" all_rejected all_rejected]
  by (simp add: tb_unsuccessful_def ad_unsuccessful_def all_rejected_def lower_AB lower_ab)

text \<open>The claim as stated fails on a 2xx response whose flag is not successful: the
  result map is empty.\<close>

theorem checkCache_total_counterexample:
  "Torbox_checkCache success_false [''AB''] = Inr Map.empty \<and>
   AllDebrid_checkCache status_error [''AB''] = Inr Map.empty"
  by (simp add: Torbox_checkCache_def tb_try_def success_false_def
      AllDebrid_checkCache_def ad_try_def status_error_def ok_def)

subsection \<open>Failed requests\<close>

lemma mark_all_empty: "mark_all st H Map.empty = all_marked st H"
  by (rule ext) (simp add: mark_all_apply all_marked_def)

lemma Torbox_failed:
  assumes "failed (fetch (TorboxCheckCached H))"
  shows "Torbox_checkCache fetch H = Inr (all_marked tb_uncached H)"
proof (cases "H = []")
  case True
  then show ?thesis by (simp add: Torbox_checkCache_def all_marked_def)
next
  case False
  from assms obtain e where "tb_try fetch H Map.empty = (Some e, Map.empty)"
    by (auto simp: failed_def tb_try_def split: fetch_outcome.splits)
  with False show ?thesis by (simp add: Torbox_checkCache_def mark_all_empty)
qed

lemma AllDebrid_failed:
  assumes "failed (fetch (AllDebridInstant H))"
  shows "AllDebrid_checkCache fetch H = Inr (all_marked ad_uncached H)"
proof (cases "H = []")
  case True
  then show ?thesis by (simp add: AllDebrid_checkCache_def all_marked_def)
next
  case False
  from assms obtain e where "ad_try fetch H Map.empty = (Some e, Map.empty)"
    by (auto simp: failed_def ad_try_def split: fetch_outcome.splits)
  with False show ?thesis by (simp add: AllDebrid_checkCache_def mark_all_empty)
qed

lemma rd_iteration_failed:
  assumes "failed (fetch i (RDInstantAvailability (take 40 (drop i H))))"
  shows "fst (rd_iteration fetch H i (r, tr)) = mark_all rd_uncached (take 40 (drop i H)) r"
  using assms
  by (auto simp: failed_def rd_iteration_def rd_try_def Let_def
      split: fetch_outcome.splits option.splits)

lemma rd_try_requests:
  "rd_try fetch H i batch (r, tr) = (eo, (r1, tr1)) \<Longrightarrow>
   requests_of tr1 = requests_of tr @ [RDInstantAvailability batch]"
  by (auto simp: rd_try_def Let_def requests_of_def
      split: fetch_outcome.splits option.splits prod.splits if_splits)

lemma rd_iteration_requests:
  "requests_of (snd (rd_iteration fetch H i (r, tr))) =
   requests_of tr @ [RDInstantAvailability (take 40 (drop i H))]"
proof -
  obtain eo r1 tr1 where t: "rd_try fetch H i (take 40 (drop i H)) (r, tr) = (eo, (r1, tr1))"
    by (metis prod.exhaust)
  from rd_try_requests[OF t] t show ?thesis
    by (cases eo) (simp_all add: rd_iteration_def Let_def)
qed

lemma rd_loop_requests:
  "requests_of (snd (rd_loop fetch H i s)) =
   requests_of (snd s) @ map RDInstantAvailability (batches_from i H)"
proof (induction fetch H i s rule: rd_loop.induct)
  case (1 fetch H i s)
  obtain r tr where s: "s = (r, tr)" by (cases s)
  show ?case
  proof (cases "i < length H")
    case True
    with 1 show ?thesis
      by (subst rd_loop.simps, subst batches_from.simps) (simp add: s rd_iteration_requests)
  next
    case False
    then show ?thesis
      by (subst rd_loop.simps, subst batches_from.simps) simp
  qed
qed

lemma forEach_other:
  assumes f: "\<And>r x r'. f r x = Inr r' \<Longrightarrow> \<forall>k. k \<noteq> key x \<longrightarrow> r' k = r k"
    and run: "forEach f xs r = (eo, r')"
    and k: "k \<notin> key ` set xs"
  shows "r' k = r k"
  using run k
proof (induction xs arbitrary: r)
  case Nil
  then show ?case by simp
next
  case (Cons x xs)
  show ?case
  proof (cases "f r x")
    case (Inl e)
    with Cons.prems show ?thesis by simp
  next
    case (Inr r1)
    with Cons.prems have "forEach f xs r1 = (eo, r')" by simp
    from Cons.IH[OF this] Cons.prems(2) f[OF Inr] show ?thesis by simp
  qed
qed

lemma rd_store_other:
  "rd_store data r h = Inr r' \<Longrightarrow> \<forall>k. k \<noteq> toLowerCase h \<longrightarrow> r' k = r k"
  by (auto simp: rd_store_def thenE_def Let_def split: sum.splits)

lemma rd_try_other:
  assumes "rd_try fetch H i batch (r, tr) = (eo, (r1, tr1))"
    and "k \<notin> toLowerCase ` set batch"
  shows "r1 k = r k"
proof (cases "fetch i (RDInstantAvailability batch)")
  case Rejected
  with assms show ?thesis by (auto simp: rd_try_def Let_def)
next
  case (Resolved response)
  show ?thesis
  proof (cases "body response")
    case None
    with Resolved assms show ?thesis by (auto simp: rd_try_def Let_def)
  next
    case (Some data)
    show ?thesis
    proof (cases "ok response")
      case True
      obtain eo' r' where fe: "forEach (rd_store data) batch r = (eo', r')"
        by (cases "forEach (rd_store data) batch r")
      from assms Resolved Some True fe have "r1 = r'"
        by (auto simp: rd_try_def Let_def split: option.splits)
      with forEach_other[where key = toLowerCase, OF rd_store_other fe assms(2)]
      show ?thesis by simp
    next
      case False
      with assms Resolved Some have "r1 = mark_all rd_uncached batch r"
        by (auto simp: rd_try_def Let_def)
      with assms(2) show ?thesis by (simp add: mark_all_apply)
    qed
  qed
qed

lemma rd_iteration_other:
  assumes "k \<notin> toLowerCase ` set (take 40 (drop i H))"
  shows "fst (rd_iteration fetch H i (r, tr)) k = r k"
proof -
  obtain eo r1 tr1 where t: "rd_try fetch H i (take 40 (drop i H)) (r, tr) = (eo, (r1, tr1))"
    by (metis prod.exhaust)
  from rd_try_other[OF t assms] t assms show ?thesis
    by (cases eo) (simp_all add: rd_iteration_def Let_def mark_all_apply)
qed

lemma rd_loop_other:
  "k \<notin> toLowerCase ` set (drop i H) \<Longrightarrow> fst (rd_loop fetch H i s) k = fst s k"
proof (induction fetch H i s rule: rd_loop.induct)
  case (1 fetch H i s)
  obtain r tr where s: "s = (r, tr)" by (cases s)
  show ?case
  proof (cases "i < length H")
    case True
    have split: "set (drop i H) = set (take 40 (drop i H)) \<union> set (drop (i + 40) H)"
      by (metis add.commute append_take_drop_id drop_drop set_append)
    from "1.prems" split have k1: "k \<notin> toLowerCase ` set (take 40 (drop i H))"
      and k2: "k \<notin> toLowerCase ` set (drop (i + 40) H)" by auto
    from "1.IH"[OF True k2] rd_iteration_other[OF k1] True show ?thesis
      by (subst rd_loop.simps) (simp add: s)
  next
    case False
    then show ?thesis by (subst rd_loop.simps) simp
  qed
qed

lemma rd_loop_reach:
  "40 * n < length H + 40 \<Longrightarrow> \<exists>s'. rd_loop fetch H 0 s = rd_loop fetch H (40 * n) s'"
proof (induction n)
  case 0
  show ?case by (rule exI[of _ s]) simp
next
  case (Suc n)
  from Suc.prems have lt: "40 * n < length H" by simp
  then have "40 * n < length H + 40" by simp
  from Suc.IH[OF this] obtain s' where s': "rd_loop fetch H 0 s = rd_loop fetch H (40 * n) s'"
    by blast
  have e: "40 * Suc n = 40 * n + 40" by simp
  from lt have "rd_loop fetch H (40 * n) s' =
      rd_loop fetch H (40 * n + 40) (rd_iteration fetch H (40 * n) s')"
    by (subst rd_loop.simps) simp
  with s' have "rd_loop fetch H 0 s =
      rd_loop fetch H (40 * Suc n) (rd_iteration fetch H (40 * n) s')"
    unfolding e by (rule trans)
  then show ?case by (rule exI)
qed

lemma rd_loop_failed_batch:
  assumes i: "40 * n < length H"
    and f: "failed (fetch (40 * n) (RDInstantAvailability (take 40 (drop (40 * n) H))))"
    and h: "h \<in> set (take 40 (drop (40 * n) H))"
    and later: "toLowerCase h \<notin> toLowerCase ` set (drop (40 * n + 40) H)"
  shows "fst (rd_loop fetch H 0 s) (toLowerCase h) = Some rd_uncached"
proof -
  from i rd_loop_reach[of n H fetch s] obtain r' tr'
    where reach: "rd_loop fetch H 0 s = rd_loop fetch H (40 * n) (r', tr')"
  proof -
    from i have "40 * n < length H + 40" by simp
    from rd_loop_reach[OF this, of fetch s] obtain s' where
      "rd_loop fetch H 0 s = rd_loop fetch H (40 * n) s'" by blast
    then show ?thesis using that by (cases s') simp
  qed
  let ?s1 = "rd_iteration fetch H (40 * n) (r', tr')"
  from i have step: "rd_loop fetch H (40 * n) (r', tr') = rd_loop fetch H (40 * n + 40) ?s1"
    by (subst rd_loop.simps) simp
  from rd_iteration_failed[of fetch "40 * n" H r' tr', OF f] h have "fst ?s1 (toLowerCase h) = Some rd_uncached"
    by (simp add: mark_all_apply)
  with rd_loop_other[OF later, of fetch ?s1] reach step show ?thesis by simp
qed

text \<open>
  C2. When the request fails (a response that is not 2xx, or a transport error),
  \<^verbatim>\<open>checkCache\<close> returns normally. Torbox and AllDebrid return the map that holds
  \<^verbatim>\<open>{cached: false, files: []}\<close> under every lowercased input hash. RealDebrid issues
  every batch whatever the outcome of the earlier ones; the iteration of a failed batch
  stores \<^verbatim>\<open>{cached: false, variants: []}\<close> under every hash of that batch, and the entry
  is still there in the final map unless a later batch carries the same hash again.
\<close>

theorem checkCache_failure_degrades:
  "(failed (fetch2 (TorboxCheckCached H)) \<longrightarrow>
      Torbox_checkCache fetch2 H = Inr (all_marked tb_uncached H)) \<and>
   (failed (fetch3 (AllDebridInstant H)) \<longrightarrow>
      AllDebrid_checkCache fetch3 H = Inr (all_marked ad_uncached H)) \<and>
   (\<exists>r tr. RealDebrid_checkCache fetch1 H = Inr (r, tr) \<and>
      requests_of tr = map RDInstantAvailability (batches_from 0 H) \<and>
      (\<forall>n h. 40 * n < length H \<and>
         failed (fetch1 (40 * n) (RDInstantAvailability (take 40 (drop (40 * n) H)))) \<and>
         h \<in> set (take 40 (drop (40 * n) H)) \<longrightarrow>
           (\<forall>s. fst (rd_iteration fetch1 H (40 * n) s) (toLowerCase h) = Some rd_uncached) \<and>
           (toLowerCase h \<notin> toLowerCase ` set (drop (40 * n + 40) H) \<longrightarrow>
              r (toLowerCase h) = Some rd_uncached))) \<and>
   cached rd_uncached = JBool False \<and> payload rd_uncached = Variants (JArr []) \<and>
   cached tb_uncached = JBool False \<and> payload tb_uncached = Files (JArr []) \<and>
   cached ad_uncached = JBool False \<and> payload ad_uncached = Files (JArr [])"
proof (intro conjI impI)
  assume "failed (fetch2 (TorboxCheckCached H))"
  then show "Torbox_checkCache fetch2 H = Inr (all_marked tb_uncached H)"
    by (rule Torbox_failed)
next
  assume "failed (fetch3 (AllDebridInstant H))"
  then show "AllDebrid_checkCache fetch3 H = Inr (all_marked ad_uncached H)"
    by (rule AllDebrid_failed)
next
  let ?s = "rd_loop fetch1 H 0 (Map.empty, [])"
  have rd: "RealDebrid_checkCache fetch1 H = Inr (fst ?s, snd ?s)"
    by (subst rd_loop.simps) (simp add: RealDebrid_checkCache_def)
  have "requests_of (snd (Map.empty :: results, [] :: event list)) = []"
    by (simp add: requests_of_def)
  with rd_loop_requests[of fetch1 H 0 "(Map.empty, [])"]
  have reqs: "requests_of (snd ?s) = map RDInstantAvailability (batches_from 0 H)"
    by simp
  have marks: "(\<forall>s. fst (rd_iteration fetch1 H (40 * n) s) (toLowerCase h) = Some rd_uncached) \<and>
      (toLowerCase h \<notin> toLowerCase ` set (drop (40 * n + 40) H) \<longrightarrow>
         fst ?s (toLowerCase h) = Some rd_uncached)"
    if "40 * n < length H \<and>
        failed (fetch1 (40 * n) (RDInstantAvailability (take 40 (drop (40 * n) H)))) \<and>
        h \<in> set (take 40 (drop (40 * n) H))" for n h
  proof (intro conjI allI impI)
    fix s :: "results \<times> event list"
    obtain r tr where s: "s = (r, tr)" by (cases s)
    from that have f: "failed (fetch1 (40 * n) (RDInstantAvailability (take 40 (drop (40 * n) H))))"
      and h: "h \<in> set (take 40 (drop (40 * n) H))" by simp_all
    from rd_iteration_failed[of fetch1 "40 * n" H r tr, OF f] h
    show "fst (rd_iteration fetch1 H (40 * n) s) (toLowerCase h) = Some rd_uncached"
      by (simp add: s mark_all_apply)
  next
    assume "toLowerCase h \<notin> toLowerCase ` set (drop (40 * n + 40) H)"
    with that show "fst ?s (toLowerCase h) = Some rd_uncached"
      by (intro rd_loop_failed_batch) simp_all
  qed
  show "\<exists>r tr. RealDebrid_checkCache fetch1 H = Inr (r, tr) \<and>
      requests_of tr = map RDInstantAvailability (batches_from 0 H) \<and>
      (\<forall>n h. 40 * n < length H \<and>
         failed (fetch1 (40 * n) (RDInstantAvailability (take 40 (drop (40 * n) H)))) \<and>
         h \<in> set (take 40 (drop (40 * n) H)) \<longrightarrow>
           (\<forall>s. fst (rd_iteration fetch1 H (40 * n) s) (toLowerCase h) = Some rd_uncached) \<and>
           (toLowerCase h \<notin> toLowerCase ` set (drop (40 * n + 40) H) \<longrightarrow>
              r (toLowerCase h) = Some rd_uncached))"
  proof (intro exI conjI allI)
    show "RealDebrid_checkCache fetch1 H = Inr (fst ?s, snd ?s)" by (rule rd)
    show "requests_of (snd ?s) = map RDInstantAvailability (batches_from 0 H)" by (rule reqs)
    fix n h
    show "40 * n < length H \<and>
         failed (fetch1 (40 * n) (RDInstantAvailability (take 40 (drop (40 * n) H)))) \<and>
         h \<in> set (take 40 (drop (40 * n) H)) \<longrightarrow>
           (\<forall>s. fst (rd_iteration fetch1 H (40 * n) s) (toLowerCase h) = Some rd_uncached) \<and>
           (toLowerCase h \<notin> toLowerCase ` set (drop (40 * n + 40) H) \<longrightarrow>
              fst ?s (toLowerCase h) = Some rd_uncached)"
      using marks[of n h] by (rule impI)
  qed
qed (simp_all add: rd_uncached_def tb_uncached_def ad_uncached_def)

theorem checkCache_failure_degrades_witness:
  "failed (all_rejected (TorboxCheckCached [''AB''])) \<and>
   Torbox_checkCache all_rejected [''AB''] = Inr (all_marked tb_uncached [''AB'']) \<and>
   failed (all_rejected (AllDebridInstant [''AB''])) \<and>
   AllDebrid_checkCache all_rejected [''AB''] = Inr (all_marked ad_uncached [''AB'']) \<and>
   failed (rd_all_rejected 0 (RDInstantAvailability [''AB''])) \<and>
   (\<exists>r tr. RealDebrid_checkCache rd_all_rejected [''AB''] = Inr (r, tr) \<and>
      requests_of tr = [RDInstantAvailability [''AB'']] \<and>
      r ''ab'' = Some rd_uncached)"
proof -
  note t = checkCache_failure_degrades[of all_rejected "[''AB'']" all_rejected rd_all_rejected]
  have f2: "failed (all_rejected q)" for q
    by (simp add: failed_def all_rejected_def)
  have f1: "failed (rd_all_rejected i q)" for i q
    by (simp add: failed_def rd_all_rejected_def)
  have b: "batches_from 0 [''AB''] = [[''AB'']]"
    by (subst batches_from.simps, subst batches_from.simps) simp
  from t obtain r tr where rd: "RealDebrid_checkCache rd_all_rejected [''AB''] = Inr (r, tr)"
    and reqs: "requests_of tr = map RDInstantAvailability (batches_from 0 [''AB''])"
    and marks: "\<And>n h. 40 * n < length [''AB''] \<and>
         failed (rd_all_rejected (40 * n) (RDInstantAvailability (take 40 (drop (40 * n) [''AB''])))) \<and>
         h \<in> set (take 40 (drop (40 * n) [''AB''])) \<Longrightarrow>
           toLowerCase h \<notin> toLowerCase ` set (drop (40 * n + 40) [''AB'']) \<Longrightarrow>
              r (toLowerCase h) = Some rd_uncached"
    by blast
  from marks[of 0 "''AB''"] f1 have "r ''ab'' = Some rd_uncached"
    by (simp add: lower_AB)
  with rd reqs b t f1 f2 show ?thesis by simp
qed

subsection \<open>The delay between batches\<close>

lemma rd_store_empty_object: "\<exists>r'. rd_store (JObj []) r h = Inr r'"
  by (simp add: rd_store_def rd_isCached_def thenE_def Let_def)

lemma rd_forEach_completes: "\<exists>r'. forEach (rd_store (JObj [])) batch r = (None, r')"
proof (induction batch arbitrary: r)
  case Nil
  show ?case by simp
next
  case (Cons h hs)
  from rd_store_empty_object obtain r1 where "rd_store (JObj []) r h = Inr r1" by blast
  with Cons[of r1] show ?case by simp
qed

lemma rd_try_answered:
  assumes "fetch i (RDInstantAvailability batch) = Resolved response"
    and "body response = Some (JObj [])"
  shows "\<exists>r'. rd_try fetch H i batch (r, tr) =
           (None, (r', tr @ [Fetch (RDInstantAvailability batch)] @
                       (if i + 40 < length H then [Sleep 500] else [])))"
proof -
  from rd_forEach_completes obtain r'
    where "forEach (rd_store (JObj [])) batch r = (None, r')" by blast
  with assms show ?thesis
    by (simp add: rd_try_def Let_def)
qed

lemma rd_iteration_trace_answered:
  assumes "fetch i (RDInstantAvailability (take 40 (drop i H))) = Resolved response"
    and "body response = Some (JObj [])"
  shows "snd (rd_iteration fetch H i (r, tr)) =
         tr @ [Fetch (RDInstantAvailability (take 40 (drop i H)))] @
         (if i + 40 < length H then [Sleep 500] else [])"
proof -
  from rd_try_answered[of fetch i "take 40 (drop i H)" response H r tr, OF assms]
  obtain r' where
    "rd_try fetch H i (take 40 (drop i H)) (r, tr) =
       (None, (r', tr @ [Fetch (RDInstantAvailability (take 40 (drop i H)))] @
                   (if i + 40 < length H then [Sleep 500] else [])))" by blast
  then show ?thesis
    by (simp only: rd_iteration_def Let_def prod.case option.case snd_conv)
qed

lemma rd_iteration_trace_thrown:
  assumes "fetch i (RDInstantAvailability (take 40 (drop i H))) = Rejected \<or>
           (\<exists>st. fetch i (RDInstantAvailability (take 40 (drop i H))) = Resolved (Response st None))"
  shows "snd (rd_iteration fetch H i (r, tr)) =
         tr @ [Fetch (RDInstantAvailability (take 40 (drop i H)))]"
  using assms by (auto simp: rd_iteration_def rd_try_def Let_def)

lemma concat_batches_from: "concat (batches_from i H) = drop i H"
proof (induction i H rule: batches_from.induct)
  case (1 i H)
  show ?case
  proof (cases "i < length H")
    case True
    have "take 40 (drop i H) @ drop (i + 40) H = drop i H"
      by (metis add.commute append_take_drop_id drop_drop)
    with True "1.IH" show ?thesis
      by (subst batches_from.simps) simp
  next
    case False
    then show ?thesis
      by (subst batches_from.simps) simp
  qed
qed

lemma length_hashes85: "length hashes85 = 85"
  by (simp add: hashes85_def)

lemma batches_hashes85:
  "batches_from 0 hashes85 =
   [take 40 (drop 0 hashes85), take 40 (drop 40 hashes85), take 40 (drop 80 hashes85)]"
proof -
  have "batches_from 120 hashes85 = []"
    by (subst batches_from.simps) (simp add: length_hashes85)
  then have "batches_from 80 hashes85 = [take 40 (drop 80 hashes85)]"
    by (subst batches_from.simps) (simp add: length_hashes85)
  then have "batches_from 40 hashes85 = [take 40 (drop 40 hashes85), take 40 (drop 80 hashes85)]"
    by (subst batches_from.simps) (simp add: length_hashes85)
  then show ?thesis
    by (subst batches_from.simps) (simp add: length_hashes85)
qed

text \<open>
  C3, at an input where the code departs from it. 85 hashes go out as three batches of
  40, 40 and 5 hashes, in input order (the batches concatenate to the input). The first
  request meets a transport error: the second batch is requested with no delay in
  between, because the 500ms wait sits inside the \<^verbatim>\<open>try\<close> block, after the point of
  the throw. The delay between the second and the third batch is there, and none follows
  the last batch.
\<close>

theorem RealDebrid_no_delay_after_thrown_batch:
  "concat (batches_from 0 hashes85) = hashes85 \<and>
   map length (batches_from 0 hashes85) = [40, 40, 5] \<and>
   map_sum id snd (RealDebrid_checkCache first_batch_rejected hashes85) =
     Inr [Fetch (RDInstantAvailability (take 40 (drop 0 hashes85))),
          Fetch (RDInstantAvailability (take 40 (drop 40 hashes85))),
          Sleep 500,
          Fetch (RDInstantAvailability (take 40 (drop 80 hashes85)))]"
proof (intro conjI)
  show "concat (batches_from 0 hashes85) = hashes85"
    by (simp only: concat_batches_from drop_0)
next
  show "map length (batches_from 0 hashes85) = [40, 40, 5]"
    by (simp add: batches_hashes85 length_hashes85)
next
  let ?f = first_batch_rejected
  let ?s0 = "(Map.empty, []) :: results \<times> event list"
  let ?s1 = "rd_iteration ?f hashes85 0 ?s0"
  let ?s2 = "rd_iteration ?f hashes85 40 ?s1"
  let ?s3 = "rd_iteration ?f hashes85 80 ?s2"
  have l3: "rd_loop ?f hashes85 120 ?s3 = ?s3"
    by (subst rd_loop.simps) (simp add: length_hashes85)
  have l2: "rd_loop ?f hashes85 80 ?s2 = ?s3"
    by (subst rd_loop.simps) (simp add: length_hashes85 l3)
  have l1: "rd_loop ?f hashes85 40 ?s1 = ?s3"
    by (subst rd_loop.simps) (simp add: length_hashes85 l2)
  have l0: "rd_loop ?f hashes85 0 ?s0 = ?s3"
    by (subst rd_loop.simps) (simp add: length_hashes85 l1)
  have t1: "snd ?s1 = [Fetch (RDInstantAvailability (take 40 (drop 0 hashes85)))]"
    using rd_iteration_trace_thrown[of ?f 0 hashes85 Map.empty "[]"]
    by (simp add: first_batch_rejected_def)
  have t2: "snd ?s2 = snd ?s1 @ [Fetch (RDInstantAvailability (take 40 (drop 40 hashes85))), Sleep 500]"
    using rd_iteration_trace_answered[of ?f 40 hashes85 "Response 200 (Some (JObj []))"
        "fst ?s1" "snd ?s1"]
    by (simp add: first_batch_rejected_def length_hashes85)
  have t3: "snd ?s3 = snd ?s2 @ [Fetch (RDInstantAvailability (take 40 (drop 80 hashes85)))]"
    using rd_iteration_trace_answered[of ?f 80 hashes85 "Response 200 (Some (JObj []))"
        "fst ?s2" "snd ?s2"]
    by (simp add: first_batch_rejected_def length_hashes85)
  have ne: "hashes85 \<noteq> []"
    using length_hashes85 by auto
  have "RealDebrid_checkCache ?f hashes85 = Inr ?s3"
    using ne by (simp only: RealDebrid_checkCache_def l0 if_False)
  then have "map_sum id snd (RealDebrid_checkCache ?f hashes85) = Inr (snd ?s3)"
    by (simp only: map_sum.simps)
  also have "snd ?s3 = [Fetch (RDInstantAvailability (take 40 (drop 0 hashes85))),
          Fetch (RDInstantAvailability (take 40 (drop 40 hashes85))),
          Sleep 500,
          Fetch (RDInstantAvailability (take 40 (drop 80 hashes85)))]"
    by (simp only: t3 t2 t1 append.simps)
  finally show "map_sum id snd (RealDebrid_checkCache first_batch_rejected hashes85) =
     Inr [Fetch (RDInstantAvailability (take 40 (drop 0 hashes85))),
          Fetch (RDInstantAvailability (take 40 (drop 40 hashes85))),
          Sleep 500,
          Fetch (RDInstantAvailability (take 40 (drop 80 hashes85)))]" .
qed

subsection \<open>Torbox: presence in the response\<close>

lemma tb_store_truthy:
  "truthy d \<Longrightarrow> tb_store d r h = Inr (r(toLowerCase h \<mapsto> tb_status (opt_chain d (toLowerCase h))))"
  by (cases d) (simp_all add: tb_store_def thenE_def opt_chain_def Let_def)

lemma tb_forEach_truthy:
  "truthy d \<Longrightarrow>
   forEach (tb_store d) hs r =
     (None, \<lambda>k. if k \<in> toLowerCase ` set hs then Some (tb_status (opt_chain d k)) else r k)"
proof (induction hs arbitrary: r)
  case Nil
  show ?case by simp
next
  case (Cons h hs)
  from Cons.IH[OF Cons.prems] show ?case
    by (auto simp: tb_store_truthy[OF Cons.prems])
qed

lemma Torbox_successful:
  assumes "fetch (TorboxCheckCached H) = Resolved response" and "ok response"
    and "body response = Some data"
    and "get data ''success'' = Inr s" and "truthy s"
    and "get data ''data'' = Inr d" and "truthy d"
  shows "Torbox_checkCache fetch H =
         Inr (\<lambda>k. if k \<in> toLowerCase ` set H then Some (tb_status (opt_chain d k)) else None)"
proof (cases "H = []")
  case True
  then show ?thesis by (simp add: Torbox_checkCache_def)
next
  case False
  from assms have "tb_try fetch H Map.empty = forEach (tb_store d) H Map.empty"
    by (simp add: tb_try_def)
  with False tb_forEach_truthy[OF assms(7), of H Map.empty] show ?thesis
    by (simp add: Torbox_checkCache_def)
qed

text \<open>
  C4, as the code has it. On a successful Torbox response (2xx, truthy \<^verbatim>\<open>success\<close>,
  \<^verbatim>\<open>data\<close> an object), every input hash gets an entry; its \<^verbatim>\<open>cached\<close> is true when the
  data map holds a truthy value under the lowercased hash, and false when the hash is
  absent from the map or the value under it is falsy (\<^verbatim>\<open>!!cacheInfo\<close>).
\<close>

theorem Torbox_cached_iff_truthy_entry:
  assumes "fetch (TorboxCheckCached H) = Resolved response" and "ok response"
    and "body response = Some data"
    and "get data ''success'' = Inr s" and "truthy s"
    and "get data ''data'' = Inr (JObj m)"
  shows "\<exists>r. Torbox_checkCache fetch H = Inr r \<and>
           (\<forall>h \<in> set H. \<exists>st. r (toLowerCase h) = Some st \<and>
              cached st = JBool (case map_of m (toLowerCase h) of
                                   None \<Rightarrow> False | Some v \<Rightarrow> truthy v))"
proof -
  have "cached (tb_status (opt_chain (JObj m) k)) =
        JBool (case map_of m k of None \<Rightarrow> False | Some v \<Rightarrow> truthy v)" for k
    by (simp add: tb_status_def opt_chain_def split: option.splits)
  with Torbox_successful[where fetch = fetch and H = H and d = "JObj m", OF assms]
  show ?thesis by simp
qed

lemma lower_cd: "toLowerCase ''cd'' = ''cd''"
  by code_simp

theorem Torbox_cached_iff_truthy_entry_witness:
  "tb_one_entry (TorboxCheckCached [''AB'', ''cd'']) =
     Resolved (Response 200 (Some (JObj
       [(''success'', JBool True),
        (''data'', JObj [(''ab'', JObj [(''files'', JArr [])])])]))) \<and>
   ok (Response 200 (Some (JObj
       [(''success'', JBool True),
        (''data'', JObj [(''ab'', JObj [(''files'', JArr [])])])]))) \<and>
   (\<exists>r. Torbox_checkCache tb_one_entry [''AB'', ''cd''] = Inr r \<and>
      (\<exists>st. r ''ab'' = Some st \<and> cached st = JBool True) \<and>
      (\<exists>st. r ''cd'' = Some st \<and> cached st = JBool False))"
proof -
  let ?data = "JObj [(''success'', JBool True),
        (''data'', JObj [(''ab'', JObj [(''files'', JArr [])])])]"
  have 1: "tb_one_entry (TorboxCheckCached [''AB'', ''cd'']) = Resolved (Response 200 (Some ?data))"
    by (simp add: tb_one_entry_def)
  have 2: "ok (Response 200 (Some ?data))"
    by (simp add: ok_def)
  have 3: "body (Response 200 (Some ?data)) = Some ?data"
    by simp
  have 4: "get ?data ''success'' = Inr (JBool True)"
    by simp
  have 5: "truthy (JBool True)"
    by simp
  have 6: "get ?data ''data'' = Inr (JObj [(''ab'', JObj [(''files'', JArr [])])])"
    by simp
  from Torbox_cached_iff_truthy_entry[where fetch = tb_one_entry and H = "[''AB'', ''cd'']",
      OF 1 2 3 4 5 6]
  have "\<exists>r. Torbox_checkCache tb_one_entry [''AB'', ''cd''] = Inr r \<and>
      (\<exists>st. r ''ab'' = Some st \<and> cached st = JBool True) \<and>
      (\<exists>st. r ''cd'' = Some st \<and> cached st = JBool False)"
    by (simp add: lower_AB lower_cd)
  with 1 2 show ?thesis by blast
qed

text \<open>The claim as stated fails for a key that is present with a falsy value: the data
  map holds \<^verbatim>\<open>null\<close> under \<^verbatim>\<open>ab\<close>, and the entry says \<^verbatim>\<open>cached: false\<close>.\<close>

theorem Torbox_present_key_counterexample:
  "map_of [(''ab'', JNull)] (toLowerCase ''AB'') = Some JNull \<and>
   Torbox_checkCache tb_null_entry [''AB''] = Inr [''ab'' \<mapsto> tb_uncached] \<and>
   cached tb_uncached = JBool False"
  by (simp add: Torbox_checkCache_def tb_try_def tb_null_entry_def ok_def tb_store_def thenE_def
      tb_status_def tb_uncached_def opt_chain_def or_else_def lower_AB)

subsection \<open>AllDebrid: pairing by position\<close>

lemma ad_store_defined:
  assumes "k < length hs" and "m \<noteq> JNull" and "m \<noteq> JUndefined"
  shows "ad_store hs r (k, m) =
         Inr (r(toLowerCase (hs ! k) \<mapsto> ad_status (opt_chain m ''instant'') (opt_chain m ''files'')))"
  using assms by (cases m) (simp_all add: ad_store_def thenE_def opt_chain_def Let_def)

lemma ad_forEach_zip:
  assumes "k + length ms \<le> length hs" and "\<forall>m \<in> set ms. m \<noteq> JNull \<and> m \<noteq> JUndefined"
  shows "forEach (ad_store hs) (enumerate k ms) r =
         (None, r ++ map_of (rev (zip (map toLowerCase (drop k hs))
                   (map (\<lambda>m. ad_status (opt_chain m ''instant'') (opt_chain m ''files'')) ms))))"
  using assms
proof (induction ms arbitrary: k r)
  case Nil
  show ?case by simp
next
  case (Cons m ms)
  from Cons.prems have k: "k < length hs" and m: "m \<noteq> JNull" "m \<noteq> JUndefined"
    and rest: "Suc k + length ms \<le> length hs" "\<forall>m \<in> set ms. m \<noteq> JNull \<and> m \<noteq> JUndefined"
    by simp_all
  from k have dr: "drop k hs = hs ! k # drop (Suc k) hs"
    by (simp add: Cons_nth_drop_Suc)
  have step: "r ++ map_of (rev (zip (a # ks) (b # vs))) = r(a \<mapsto> b) ++ map_of (rev (zip ks vs))"
    for a :: string and b :: cache_status and ks vs
    by (rule ext) (simp add: map_add_def split: option.splits)
  have "forEach (ad_store hs) (enumerate k (m # ms)) r =
        forEach (ad_store hs) (enumerate (Suc k) ms)
          (r(toLowerCase (hs ! k) \<mapsto> ad_status (opt_chain m ''instant'') (opt_chain m ''files'')))"
    by (simp add: ad_store_defined[OF k m])
  then show ?case
    by (simp only: Cons.IH[OF rest] dr list.map step)
qed

lemma AllDebrid_successful:
  assumes "fetch (AllDebridInstant H) = Resolved response" and "ok response"
    and "body response = Some data"
    and "get data ''status'' = Inr (JStr ''success'')"
    and "get data ''data'' = Inr d" and "truthy d"
    and "get d ''magnets'' = Inr (JArr ms)"
    and "length ms \<le> length H"
    and "\<forall>m \<in> set ms. m \<noteq> JNull \<and> m \<noteq> JUndefined"
  shows "AllDebrid_checkCache fetch H =
         Inr (map_of (rev (zip (map toLowerCase H)
                (map (\<lambda>m. ad_status (opt_chain m ''instant'') (opt_chain m ''files'')) ms))))"
proof (cases "H = []")
  case True
  then show ?thesis by (simp add: AllDebrid_checkCache_def)
next
  case False
  from assms(1-7) have "ad_try fetch H Map.empty = forEach (ad_store H) (enumerate 0 ms) Map.empty"
    by (simp add: ad_try_def ad_forEach_def)
  with False ad_forEach_zip[of 0 ms H Map.empty] assms(8,9) show ?thesis
    by (simp add: AllDebrid_checkCache_def)
qed

lemma map_of_rev_distinct: "distinct (map fst xs) \<Longrightarrow> map_of (rev xs) = map_of xs"
proof (induction xs)
  case Nil
  show ?case by simp
next
  case (Cons x xs)
  obtain a b where x: "x = (a, b)" by (cases x)
  from Cons.prems x have "map_of xs a = None"
    by (simp add: map_of_eq_None_iff)
  with Cons x show ?case
    by (auto simp: map_add_def fun_eq_iff split: option.splits)
qed

lemma map_of_rev_zip_nth:
  assumes "distinct ks" and "length vs \<le> length ks" and "i < length vs"
  shows "map_of (rev (zip ks vs)) (ks ! i) = Some (vs ! i)"
proof -
  let ?ks = "take (length vs) ks"
  have "take (length vs) (zip ks vs) = zip ks vs" by simp
  then have z: "zip ks vs = zip ?ks vs"
    by (simp add: take_zip)
  have d: "distinct ?ks" using assms(1) by simp
  have l: "length ?ks = length vs" using assms(2) by simp
  have "distinct (map fst (zip ?ks vs))" using d l by simp
  then have "map_of (rev (zip ?ks vs)) = map_of (zip ?ks vs)"
    by (rule map_of_rev_distinct)
  moreover have "map_of (zip ?ks vs) (?ks ! i) = Some (vs ! i)"
    using l d assms(3) by (rule map_of_zip_nth)
  moreover have "?ks ! i = ks ! i" using assms(3) by simp
  ultimately show ?thesis using z by simp
qed

text \<open>
  C5, as the code has it. On a successful AllDebrid response (2xx, \<^verbatim>\<open>status\<close>
  \<^verbatim>\<open>'success'\<close>) whose magnets array is no longer than the input and holds no
  \<^verbatim>\<open>null\<close> element, the result is the empty map updated, position by position, with the
  lowercased input hash at index \<open>i\<close> as the key for the entry built from the array
  element at index \<open>i\<close>. The entry's
  \<^verbatim>\<open>cached\<close> is true exactly when the element's \<^verbatim>\<open>instant\<close> is \<^verbatim>\<open>true\<close>; no other
  member of the element (a hash, a name) is read. For hashes that are distinct up to
  case, the hash at index \<open>i\<close> ends with the entry of element \<open>i\<close>.
\<close>

theorem AllDebrid_positional_zip:
  assumes "fetch (AllDebridInstant H) = Resolved response" and "ok response"
    and "body response = Some data"
    and "get data ''status'' = Inr (JStr ''success'')"
    and "get data ''data'' = Inr d" and "truthy d"
    and "get d ''magnets'' = Inr (JArr ms)"
    and "length ms \<le> length H"
    and "\<forall>m \<in> set ms. m \<noteq> JNull \<and> m \<noteq> JUndefined"
  shows "\<exists>r. AllDebrid_checkCache fetch H = Inr r \<and>
           r = Map.empty(map toLowerCase H [\<mapsto>]
                 map (\<lambda>m. ad_status (opt_chain m ''instant'') (opt_chain m ''files'')) ms) \<and>
           (distinct (map toLowerCase H) \<longrightarrow>
              (\<forall>i < length ms. \<exists>st. r (toLowerCase (H ! i)) = Some st \<and>
                 cached st = JBool (opt_chain (ms ! i) ''instant'' = JBool True)))"
proof -
  let ?vs = "map (\<lambda>m. ad_status (opt_chain m ''instant'') (opt_chain m ''files'')) ms"
  let ?r = "map_of (rev (zip (map toLowerCase H) ?vs))"
  have run: "AllDebrid_checkCache fetch H = Inr ?r"
    using assms by (rule AllDebrid_successful)
  have upds: "?r = Map.empty(map toLowerCase H [\<mapsto>] ?vs)"
    by (simp add: map_upds_def)
  have nth: "\<exists>st. ?r (toLowerCase (H ! i)) = Some st \<and>
                 cached st = JBool (opt_chain (ms ! i) ''instant'' = JBool True)"
    if d: "distinct (map toLowerCase H)" and i: "i < length ms" for i
  proof -
    from i assms(8) have "map_of (rev (zip (map toLowerCase H) ?vs)) (map toLowerCase H ! i) =
        Some (?vs ! i)"
      by (intro map_of_rev_zip_nth d) simp_all
    with i assms(8) show ?thesis
      by (simp add: ad_status_def)
  qed
  show ?thesis
  proof (rule exI[of _ ?r], intro conjI impI allI)
    show "AllDebrid_checkCache fetch H = Inr ?r" by (rule run)
    show "?r = Map.empty(map toLowerCase H [\<mapsto>] ?vs)" by (rule upds)
    fix i
    assume "distinct (map toLowerCase H)" and "i < length ms"
    then show "\<exists>st. ?r (toLowerCase (H ! i)) = Some st \<and>
                 cached st = JBool (opt_chain (ms ! i) ''instant'' = JBool True)"
      by (rule nth)
  qed
qed

lemma lower_CD: "toLowerCase ''CD'' = ''cd''"
  by code_simp

theorem AllDebrid_positional_zip_witness:
  "ad_swapped (AllDebridInstant [''AB'', ''CD'']) =
     Resolved (Response 200 (Some (JObj
       [(''status'', JStr ''success''), (''data'', JObj [(''magnets'', JArr ad_two_magnets)])]))) \<and>
   get (ad_two_magnets ! 0) ''hash'' = Inr (JStr ''cd'') \<and>
   get (ad_two_magnets ! 1) ''hash'' = Inr (JStr ''ab'') \<and>
   (\<exists>r. AllDebrid_checkCache ad_swapped [''AB'', ''CD''] = Inr r \<and>
      (\<exists>st. r ''ab'' = Some st \<and> cached st = JBool True) \<and>
      (\<exists>st. r ''cd'' = Some st \<and> cached st = JBool False))"
proof -
  let ?d = "JObj [(''magnets'', JArr ad_two_magnets)]"
  let ?data = "JObj [(''status'', JStr ''success''), (''data'', ?d)]"
  have 1: "ad_swapped (AllDebridInstant [''AB'', ''CD'']) = Resolved (Response 200 (Some ?data))"
    by (simp add: ad_swapped_def)
  have 2: "ok (Response 200 (Some ?data))"
    by (simp add: ok_def)
  have 3: "body (Response 200 (Some ?data)) = Some ?data"
    by simp
  have 4: "get ?data ''status'' = Inr (JStr ''success'')"
    by simp
  have 5: "get ?data ''data'' = Inr ?d"
    by simp
  have 6: "truthy ?d"
    by simp
  have 7: "get ?d ''magnets'' = Inr (JArr ad_two_magnets)"
    by simp
  have 8: "length ad_two_magnets \<le> length [''AB'', ''CD'']"
    by (simp add: ad_two_magnets_def)
  have 9: "\<forall>m \<in> set ad_two_magnets. m \<noteq> JNull \<and> m \<noteq> JUndefined"
    by (simp add: ad_two_magnets_def)
  from AllDebrid_positional_zip[where fetch = ad_swapped and H = "[''AB'', ''CD'']",
      OF 1 2 3 4 5 6 7 8 9]
  obtain r where run: "AllDebrid_checkCache ad_swapped [''AB'', ''CD''] = Inr r"
    and nth: "distinct (map toLowerCase [''AB'', ''CD'']) \<longrightarrow>
       (\<forall>i < length ad_two_magnets. \<exists>st. r (toLowerCase ([''AB'', ''CD''] ! i)) = Some st \<and>
          cached st = JBool (opt_chain (ad_two_magnets ! i) ''instant'' = JBool True))"
    by blast
  have len: "length ad_two_magnets = 2"
    by (simp add: ad_two_magnets_def)
  from nth have n0: "\<exists>st. r ''ab'' = Some st \<and> cached st = JBool True"
    using len by (auto simp: lower_AB lower_CD ad_two_magnets_def opt_chain_def dest!: spec[of _ 0])
  from nth have n1: "\<exists>st. r ''cd'' = Some st \<and> cached st = JBool False"
    using len by (auto simp: lower_AB lower_CD ad_two_magnets_def opt_chain_def dest!: spec[of _ 1])
  have "get (ad_two_magnets ! 0) ''hash'' = Inr (JStr ''cd'')"
    "get (ad_two_magnets ! 1) ''hash'' = Inr (JStr ''ab'')"
    by (simp_all add: ad_two_magnets_def)
  with 1 run n0 n1 show ?thesis by blast
qed

text \<open>The claim as stated fails on a successful response with more magnets than hashes,
  or with a \<^verbatim>\<open>null\<close> magnet: the callback throws, the \<^verbatim>\<open>catch\<close> marks every hash
  \<^verbatim>\<open>cached: false\<close>, and the hash at index 0 is not cached although the element at
  index 0 has \<^verbatim>\<open>instant === true\<close>.\<close>

theorem AllDebrid_positional_zip_counterexample:
  "get (ad_two_magnets ! 0) ''instant'' = Inr (JBool True) \<and>
   AllDebrid_checkCache ad_swapped [''AB''] = Inr [''ab'' \<mapsto> ad_uncached] \<and>
   AllDebrid_checkCache ad_null_magnet [''AB'', ''CD''] =
     Inr [''ab'' \<mapsto> ad_uncached, ''cd'' \<mapsto> ad_uncached] \<and>
   cached ad_uncached = JBool False"
  by (simp add: AllDebrid_checkCache_def ad_try_def ad_swapped_def ad_null_magnet_def
      ad_two_magnets_def ad_forEach_def ad_store_def thenE_def ok_def mark_all_def
      ad_uncached_def lower_AB lower_CD Let_def)

section \<open>Properties of the aggregator\<close>

lemma checkAll_returns: "\<exists>c called. checkAllDebridCaches hashes svc = Inr (c, called)"
  by (simp add: checkAllDebridCaches_def Let_def split: prod.splits)

lemma checkAll_realdebrid:
  assumes "checkAllDebridCaches hashes svc = Inr (c, called)"
  shows "cacheResults.realdebrid c =
           (case (useRealDebrid svc, services.realdebrid svc) of
              (True, Some cl) \<Rightarrow> settle (cl hashes) Map.empty | _ \<Rightarrow> Map.empty) \<and>
         (RealDebrid \<in> set called \<longleftrightarrow> useRealDebrid svc \<and> services.realdebrid svc \<noteq> None)"
  using assms
  by (auto simp: checkAllDebridCaches_def Let_def split: bool.splits option.splits)

lemma checkAll_torbox:
  assumes "checkAllDebridCaches hashes svc = Inr (c, called)"
  shows "cacheResults.torbox c =
           (case (useTorbox svc, services.torbox svc) of
              (True, Some cl) \<Rightarrow> settle (cl hashes) Map.empty | _ \<Rightarrow> Map.empty) \<and>
         (Torbox \<in> set called \<longleftrightarrow> useTorbox svc \<and> services.torbox svc \<noteq> None)"
  using assms
  by (auto simp: checkAllDebridCaches_def Let_def split: bool.splits option.splits)

lemma checkAll_alldebrid:
  assumes "checkAllDebridCaches hashes svc = Inr (c, called)"
  shows "cacheResults.alldebrid c =
           (case (useAllDebrid svc, services.alldebrid svc) of
              (True, Some cl) \<Rightarrow> settle (cl hashes) Map.empty | _ \<Rightarrow> Map.empty) \<and>
         (AllDebrid \<in> set called \<longleftrightarrow> useAllDebrid svc \<and> services.alldebrid svc \<noteq> None)"
  using assms
  by (auto simp: checkAllDebridCaches_def Let_def split: bool.splits option.splits)

text \<open>
  C8. \<^verbatim>\<open>checkAllDebridCaches\<close> always returns an object with the three entries
  \<^verbatim>\<open>realdebrid\<close>, \<^verbatim>\<open>torbox\<close> and \<^verbatim>\<open>alldebrid\<close>. Each entry depends on its own
  provider only: the map that provider's \<^verbatim>\<open>checkCache\<close> fulfilled with, or the empty map
  when the provider is disabled or its \<^verbatim>\<open>checkCache\<close> rejected. A client's
  \<^verbatim>\<open>checkCache\<close> is called exactly when the provider is enabled.
\<close>

theorem checkAllDebridCaches_isolated:
  "\<exists>c called. checkAllDebridCaches hashes svc = Inr (c, called) \<and>
     cacheResults.realdebrid c =
       provider_entry (useRealDebrid svc) (services.realdebrid svc) hashes \<and>
     cacheResults.torbox c =
       provider_entry (useTorbox svc) (services.torbox svc) hashes \<and>
     cacheResults.alldebrid c =
       provider_entry (useAllDebrid svc) (services.alldebrid svc) hashes \<and>
     (RealDebrid \<in> set called \<longleftrightarrow> useRealDebrid svc \<and> services.realdebrid svc \<noteq> None) \<and>
     (Torbox \<in> set called \<longleftrightarrow> useTorbox svc \<and> services.torbox svc \<noteq> None) \<and>
     (AllDebrid \<in> set called \<longleftrightarrow> useAllDebrid svc \<and> services.alldebrid svc \<noteq> None)"
proof -
  from checkAll_returns obtain c called
    where run: "checkAllDebridCaches hashes svc = Inr (c, called)" by blast
  have pe: "provider_entry use cl hashes =
      (case (use, cl) of (True, Some c) \<Rightarrow> settle (c hashes) Map.empty | _ \<Rightarrow> Map.empty)"
    for use cl
    by (simp add: provider_entry_def settle_def split: bool.splits option.splits sum.splits)
  from checkAll_realdebrid[OF run] checkAll_torbox[OF run] checkAll_alldebrid[OF run] run
  show ?thesis
    unfolding pe by blast
qed

theorem checkAllDebridCaches_isolated_witness:
  "\<exists>c called. checkAllDebridCaches [''AB''] example_services = Inr (c, called) \<and>
     cacheResults.realdebrid c = Map.empty \<and>
     cacheResults.torbox c = [''ab'' \<mapsto> tb_uncached] \<and>
     cacheResults.alldebrid c = Map.empty \<and>
     RealDebrid \<in> set called \<and> Torbox \<in> set called \<and> AllDebrid \<notin> set called"
  using checkAllDebridCaches_isolated[of "[''AB'']" example_services]
  by (simp add: example_services_def provider_entry_def rejecting_client_def fulfilling_client_def)

section \<open>Properties of the identifier conversion\<close>

text \<open>The comparison \<^verbatim>\<open>length > 0\<close> coerces its operand as JavaScript does.\<close>

lemma gt_zero_coerces:
  "gt_zero (JStr ''5'') = Inr True \<and> gt_zero (JArr [JNum 3]) = Inr True \<and>
   gt_zero (JStr ''1'') = Inr True \<and> gt_zero (JArr []) = Inr False \<and>
   gt_zero (JObj []) = Inr False"
  by code_simp

lemma array_index_0: "array_index ''0'' = Some 0"
  by (simp add: array_index_def is_digit_def digits_value_def)

lemma has_results_Cons: "get data category = Inr (JArr (x # xs)) \<Longrightarrow> has_results data category = Inr True"
  by (simp add: has_results_def thenE_def)

lemma has_results_Nil: "get data category = Inr (JArr []) \<Longrightarrow> has_results data category = Inr False"
  by (simp add: has_results_def thenE_def)

lemma has_results_missing: "get data category = Inr JUndefined \<Longrightarrow> has_results data category = Inr False"
  by (simp add: has_results_def thenE_def)

lemma first_field_Cons:
  assumes "get data category = Inr (JArr (x # xs))" and "x \<noteq> JNull" and "x \<noteq> JUndefined"
  shows "first_field data category field = Inr (opt_chain x field)"
  using assms by (cases x) (simp_all add: first_field_def thenE_def array_index_0 opt_chain_def)

lemma imdb_try_movie:
  assumes "fetch (Find s) = Resolved response" and "ok response" and "body response = Some data"
    and "get data ''movie_results'' = Inr (JArr (m # ms))" and "m \<noteq> JNull" and "m \<noteq> JUndefined"
  shows "imdb_try fetch s = Inr \<lparr>lookup_result.tmdbId = opt_chain m ''id'', type = JStr ''movie''\<rparr>"
  using assms(1-3) has_results_Cons[OF assms(4)] first_field_Cons[OF assms(4-6)]
  by (simp add: imdb_try_def thenE_def)

lemma imdb_try_series:
  assumes "fetch (Find s) = Resolved response" and "ok response" and "body response = Some data"
    and "has_results data ''movie_results'' = Inr False"
    and "get data ''tv_results'' = Inr (JArr (t # ts))" and "t \<noteq> JNull" and "t \<noteq> JUndefined"
  shows "imdb_try fetch s = Inr \<lparr>lookup_result.tmdbId = opt_chain t ''id'', type = JStr ''series''\<rparr>"
  using assms(1-4) has_results_Cons[OF assms(5)] first_field_Cons[OF assms(5-7)]
  by (simp add: imdb_try_def thenE_def)

lemma imdb_try_episode:
  assumes "fetch (Find s) = Resolved response" and "ok response" and "body response = Some data"
    and "has_results data ''movie_results'' = Inr False"
    and "has_results data ''tv_results'' = Inr False"
    and "get data ''tv_episode_results'' = Inr (JArr (e # es))" and "e \<noteq> JNull" and "e \<noteq> JUndefined"
  shows "imdb_try fetch s = Inr \<lparr>lookup_result.tmdbId = opt_chain e ''show_id'', type = JStr ''series''\<rparr>"
  using assms(1-5) has_results_Cons[OF assms(6)] first_field_Cons[OF assms(6-8)]
  by (simp add: imdb_try_def thenE_def)

lemma imdb_try_none:
  assumes "fetch (Find s) = Resolved response" and "ok response" and "body response = Some data"
    and "has_results data ''movie_results'' = Inr False"
    and "has_results data ''tv_results'' = Inr False"
    and "has_results data ''tv_episode_results'' = Inr False"
  shows "imdb_try fetch s = Inr no_match"
  using assms by (simp add: imdb_try_def thenE_def)

lemma imdbToTmdb_valid:
  assumes "s \<noteq> []" and "take 2 s = ''tt''" and "imdb_try fetch s = Inr r"
  shows "imdbToTmdb fetch (Some s) = Inr (r, [Find s])"
  using assms by (simp add: imdbToTmdb_def)

text \<open>
  C7, as the code has it. The forward lookup, on a 2xx response with a JSON body, looks
  at \<^verbatim>\<open>movie_results\<close>, then \<^verbatim>\<open>tv_results\<close>, then \<^verbatim>\<open>tv_episode_results\<close>; a category
  has a match when it is truthy and its \<^verbatim>\<open>length\<close> is greater than 0. It answers from
  the first element of the first category that has a match, provided that element is not
  \<^verbatim>\<open>null\<close>: the element's \<^verbatim>\<open>id\<close> for a movie or a series, the element's
  \<^verbatim>\<open>show_id\<close> (the parent series) for an episode. When no category has a match (in
  particular a missing member or an empty array), it returns
  \<^verbatim>\<open>{tmdbId: null, type: null}\<close> normally.
\<close>

theorem imdbToTmdb_category_order:
  assumes "s \<noteq> []" and "take 2 s = ''tt''"
    and "fetch (Find s) = Resolved response" and "ok response" and "body response = Some data"
  shows
    "(\<forall>m ms. get data ''movie_results'' = Inr (JArr (m # ms)) \<and> m \<noteq> JNull \<and> m \<noteq> JUndefined \<longrightarrow>
        imdbToTmdb fetch (Some s) =
          Inr (\<lparr>lookup_result.tmdbId = opt_chain m ''id'', type = JStr ''movie''\<rparr>, [Find s])) \<and>
     (\<forall>t ts. has_results data ''movie_results'' = Inr False \<and>
        get data ''tv_results'' = Inr (JArr (t # ts)) \<and> t \<noteq> JNull \<and> t \<noteq> JUndefined \<longrightarrow>
        imdbToTmdb fetch (Some s) =
          Inr (\<lparr>lookup_result.tmdbId = opt_chain t ''id'', type = JStr ''series''\<rparr>, [Find s])) \<and>
     (\<forall>e es. has_results data ''movie_results'' = Inr False \<and>
        has_results data ''tv_results'' = Inr False \<and>
        get data ''tv_episode_results'' = Inr (JArr (e # es)) \<and> e \<noteq> JNull \<and> e \<noteq> JUndefined \<longrightarrow>
        imdbToTmdb fetch (Some s) =
          Inr (\<lparr>lookup_result.tmdbId = opt_chain e ''show_id'', type = JStr ''series''\<rparr>, [Find s])) \<and>
     (has_results data ''movie_results'' = Inr False \<and>
        has_results data ''tv_results'' = Inr False \<and>
        has_results data ''tv_episode_results'' = Inr False \<longrightarrow>
        imdbToTmdb fetch (Some s) = Inr (\<lparr>lookup_result.tmdbId = JNull, type = JNull\<rparr>, [Find s])) \<and>
     (\<forall>category. get data category = Inr JUndefined \<or> get data category = Inr (JArr []) \<longrightarrow>
        has_results data category = Inr False)"
proof (intro conjI allI impI)
  fix m ms
  assume a: "get data ''movie_results'' = Inr (JArr (m # ms)) \<and> m \<noteq> JNull \<and> m \<noteq> JUndefined"
  have "imdb_try fetch s = Inr \<lparr>lookup_result.tmdbId = opt_chain m ''id'', type = JStr ''movie''\<rparr>"
    by (rule imdb_try_movie[where fetch = fetch and ms = ms and response = response and data = data])
      (use a assms(3-5) in blast)+
  with assms(1,2)
  show "imdbToTmdb fetch (Some s) =
          Inr (\<lparr>lookup_result.tmdbId = opt_chain m ''id'', type = JStr ''movie''\<rparr>, [Find s])"
    by (rule imdbToTmdb_valid)
next
  fix t ts
  assume a: "has_results data ''movie_results'' = Inr False \<and>
        get data ''tv_results'' = Inr (JArr (t # ts)) \<and> t \<noteq> JNull \<and> t \<noteq> JUndefined"
  have "imdb_try fetch s = Inr \<lparr>lookup_result.tmdbId = opt_chain t ''id'', type = JStr ''series''\<rparr>"
    by (rule imdb_try_series[where fetch = fetch and ts = ts and response = response and data = data])
      (use a assms(3-5) in blast)+
  with assms(1,2)
  show "imdbToTmdb fetch (Some s) =
          Inr (\<lparr>lookup_result.tmdbId = opt_chain t ''id'', type = JStr ''series''\<rparr>, [Find s])"
    by (rule imdbToTmdb_valid)
next
  fix e es
  assume a: "has_results data ''movie_results'' = Inr False \<and>
        has_results data ''tv_results'' = Inr False \<and>
        get data ''tv_episode_results'' = Inr (JArr (e # es)) \<and> e \<noteq> JNull \<and> e \<noteq> JUndefined"
  have "imdb_try fetch s =
      Inr \<lparr>lookup_result.tmdbId = opt_chain e ''show_id'', type = JStr ''series''\<rparr>"
    by (rule imdb_try_episode[where fetch = fetch and es = es and response = response and data = data])
      (use a assms(3-5) in blast)+
  with assms(1,2)
  show "imdbToTmdb fetch (Some s) =
          Inr (\<lparr>lookup_result.tmdbId = opt_chain e ''show_id'', type = JStr ''series''\<rparr>, [Find s])"
    by (rule imdbToTmdb_valid)
next
  assume a: "has_results data ''movie_results'' = Inr False \<and>
        has_results data ''tv_results'' = Inr False \<and>
        has_results data ''tv_episode_results'' = Inr False"
  have "imdb_try fetch s = Inr no_match"
    by (rule imdb_try_none[where fetch = fetch and response = response and data = data])
      (use a assms(3-5) in blast)+
  with assms(1,2) have "imdbToTmdb fetch (Some s) = Inr (no_match, [Find s])"
    by (rule imdbToTmdb_valid)
  then show "imdbToTmdb fetch (Some s) =
      Inr (\<lparr>lookup_result.tmdbId = JNull, type = JNull\<rparr>, [Find s])"
    by (simp add: no_match_def)
next
  fix category
  assume "get data category = Inr JUndefined \<or> get data category = Inr (JArr [])"
  then show "has_results data category = Inr False"
    by (auto intro: has_results_missing has_results_Nil)
qed

theorem imdbToTmdb_category_order_witness:
  "imdbToTmdb episode_service (Some ''tt0959621'') =
     Inr (\<lparr>lookup_result.tmdbId = JNum 1396, type = JStr ''series''\<rparr>, [Find ''tt0959621'']) \<and>
   imdbToTmdb empty_service (Some ''tt0959621'') =
     Inr (\<lparr>lookup_result.tmdbId = JNull, type = JNull\<rparr>, [Find ''tt0959621''])"
proof -
  have g: "''tt0959621'' \<noteq> []" "take 2 ''tt0959621'' = ''tt''"
    by simp_all
  have ok200: "ok (Response 200 b)" for b
    by (simp add: ok_def)
  have e: "episode_service (Find ''tt0959621'') = Resolved (Response 200 (Some episode_response))"
    by (simp add: episode_service_def)
  have n: "empty_service (Find ''tt0959621'') = Resolved (Response 200 (Some empty_response))"
    by (simp add: empty_service_def)
  have b: "body (Response 200 (Some d)) = Some d" for d
    by simp
  note t1 = imdbToTmdb_category_order[where fetch = episode_service and s = "''tt0959621''"
      and response = "Response 200 (Some episode_response)" and data = episode_response,
      OF g e ok200 b]
  note t2 = imdbToTmdb_category_order[where fetch = empty_service and s = "''tt0959621''"
      and response = "Response 200 (Some empty_response)" and data = empty_response,
      OF g n ok200 b]
  have h1: "has_results episode_response ''movie_results'' = Inr False"
      "has_results episode_response ''tv_results'' = Inr False"
    by (simp_all add: has_results_def thenE_def episode_response_def)
  have g1: "get episode_response ''tv_episode_results'' =
      Inr (JArr [JObj [(''id'', JNum 62085), (''show_id'', JNum 1396)]])"
    by (simp add: episode_response_def)
  have h2: "has_results empty_response ''movie_results'' = Inr False"
      "has_results empty_response ''tv_results'' = Inr False"
      "has_results empty_response ''tv_episode_results'' = Inr False"
    by (simp_all add: has_results_def thenE_def empty_response_def)
  from t1 h1 g1 have
    "imdbToTmdb episode_service (Some ''tt0959621'') =
       Inr (\<lparr>lookup_result.tmdbId = opt_chain (JObj [(''id'', JNum 62085), (''show_id'', JNum 1396)]) ''show_id'',
             type = JStr ''series''\<rparr>, [Find ''tt0959621''])"
    by simp
  moreover from t2 h2 have
    "imdbToTmdb empty_service (Some ''tt0959621'') =
       Inr (\<lparr>lookup_result.tmdbId = JNull, type = JNull\<rparr>, [Find ''tt0959621''])"
    by simp
  ultimately show ?thesis by (simp add: opt_chain_def)
qed

text \<open>The claim as stated fails when the first element of a category is \<^verbatim>\<open>null\<close>:
  \<^verbatim>\<open>data.movie_results[0].id\<close> throws, the \<^verbatim>\<open>catch\<close> returns the unresolved result, and
  the series match is never looked at.\<close>

theorem imdbToTmdb_category_order_counterexample:
  "get null_movie_response ''movie_results'' = Inr (JArr [JNull]) \<and>
   get null_movie_response ''tv_results'' = Inr (JArr [JObj [(''id'', JNum 1396)]]) \<and>
   imdbToTmdb null_movie_service (Some ''tt0903747'') =
     Inr (\<lparr>lookup_result.tmdbId = JNull, type = JNull\<rparr>, [Find ''tt0903747''])"
  by (simp add: imdbToTmdb_def imdb_try_def has_results_def first_field_def thenE_def
      array_index_0 ok_def no_match_def null_movie_service_def null_movie_response_def)

text \<open>A category that is an object with the length \<^verbatim>\<open>"1"\<close> has a match, as in
  JavaScript: the lookup answers from its member \<^verbatim>\<open>0\<close>.\<close>

lemma imdbToTmdb_string_length:
  "imdbToTmdb string_length_service (Some ''tt0111161'') =
     Inr (\<lparr>lookup_result.tmdbId = JNum 278, type = JStr ''movie''\<rparr>, [Find ''tt0111161''])"
proof -
  have "gt_zero (JStr ''1'') = Inr True" by code_simp
  then show ?thesis
    by (simp add: imdbToTmdb_def imdb_try_def has_results_def first_field_def thenE_def
      ok_def string_length_service_def string_length_response_def)
qed

text \<open>
  C10. Both lookups check their arguments before any request. \<^verbatim>\<open>imdbToTmdb\<close> returns
  \<^verbatim>\<open>{tmdbId: null, type: null}\<close> with no request issued when the id is missing, empty or
  does not start with \<^verbatim>\<open>tt\<close>; \<^verbatim>\<open>tmdbToImdb\<close> returns \<^verbatim>\<open>null\<close> with no request issued
  when the id is missing or zero, or the media kind is missing or empty.
\<close>

theorem lookups_validate_before_request:
  "((imdb_id = None \<or> imdb_id = Some [] \<or> (\<exists>s. imdb_id = Some s \<and> take 2 s \<noteq> ''tt'')) \<longrightarrow>
      imdbToTmdb fetch imdb_id = Inr (\<lparr>lookup_result.tmdbId = JNull, type = JNull\<rparr>, [])) \<and>
   ((tmdb_id = None \<or> tmdb_id = Some 0 \<or> media_type = None \<or> media_type = Some []) \<longrightarrow>
      tmdbToImdb fetch tmdb_id media_type = Inr (JNull, []))"
proof (intro conjI impI)
  assume "imdb_id = None \<or> imdb_id = Some [] \<or> (\<exists>s. imdb_id = Some s \<and> take 2 s \<noteq> ''tt'')"
  then consider "imdb_id = None" | s where "imdb_id = Some s" "s = [] \<or> take 2 s \<noteq> ''tt''"
    by blast
  then have "imdbToTmdb fetch imdb_id = Inr (no_match, [])"
  proof cases
    case 1
    then show ?thesis by (simp add: imdbToTmdb_def)
  next
    case 2
    then show ?thesis by (simp add: imdbToTmdb_def)
  qed
  then show "imdbToTmdb fetch imdb_id = Inr (\<lparr>lookup_result.tmdbId = JNull, type = JNull\<rparr>, [])"
    by (simp add: no_match_def)
next
  assume "tmdb_id = None \<or> tmdb_id = Some 0 \<or> media_type = None \<or> media_type = Some []"
  then show "tmdbToImdb fetch tmdb_id media_type = Inr (JNull, [])"
    by (cases tmdb_id; cases media_type) (auto simp: tmdbToImdb_def)
qed

theorem lookups_validate_before_request_witness:
  "take 2 ''nm0000151'' \<noteq> ''tt'' \<and>
   imdbToTmdb tmdb_service (Some ''nm0000151'') =
     Inr (\<lparr>lookup_result.tmdbId = JNull, type = JNull\<rparr>, []) \<and>
   tmdbToImdb tmdb_service (Some 1396) None = Inr (JNull, [])"
  using lookups_validate_before_request[of "Some ''nm0000151''" tmdb_service "Some 1396" None]
  by simp

lemma tmdb_try_external:
  assumes "fetch (Details mediaType n) = Resolved response" and "ok response"
    and "body response = Some data"
    and "get data ''external_ids'' = Inr ext" and "truthy ext"
    and "get ext ''imdb_id'' = Inr v" and "truthy v"
  shows "tmdb_try fetch n mediaType = Inr v"
  using assms by (simp add: tmdb_try_def thenE_def)

lemma get_falsy: "\<not> truthy v \<Longrightarrow> get v k = Inr x \<Longrightarrow> x = JUndefined \<or> x = JNum 0"
  by (cases v) (auto split: option.splits if_splits)

text \<open>
  C6. \<^verbatim>\<open>completeIds\<close> takes one of three paths by the shape of its input. With both ids
  present it returns the pair as it is and issues no request. With only the IMDb id, a
  forward lookup whose first movie match has the numeric id \<open>n\<close> gives that id as
  \<^verbatim>\<open>tmdbId\<close>. With only the TMDb id and the kind \<^verbatim>\<open>series\<close>, the reverse lookup goes to
  the media type \<^verbatim>\<open>tv\<close>, and the external id it returns becomes \<^verbatim>\<open>imdbId\<close>.
\<close>

theorem completeIds_paths:
  "(a \<noteq> [] \<and> b \<noteq> 0 \<longrightarrow>
      completeIds fetch (Some a) (Some b) media_type =
        Inr (\<lparr>imdbId = JStr a, tmdbId = JNum b\<rparr>, [])) \<and>
   (a \<noteq> [] \<and> take 2 a = ''tt'' \<and> (tmdb_id = None \<or> tmdb_id = Some 0) \<and>
    fetch (Find a) = Resolved response \<and> ok response \<and> body response = Some data \<and>
    get data ''movie_results'' = Inr (JArr (m # ms)) \<and> get m ''id'' = Inr (JNum n) \<longrightarrow>
      completeIds fetch (Some a) tmdb_id media_type =
        Inr (\<lparr>imdbId = JStr a, tmdbId = JNum n\<rparr>, [Find a])) \<and>
   ((imdb_id = None \<or> imdb_id = Some []) \<and> b \<noteq> 0 \<and>
    fetch (Details ''tv'' b) = Resolved response' \<and> ok response' \<and>
    body response' = Some data' \<and>
    get data' ''external_ids'' = Inr ext \<and> get ext ''imdb_id'' = Inr (JStr i) \<and> i \<noteq> [] \<longrightarrow>
      completeIds fetch imdb_id (Some b) (Some ''series'') =
        Inr (\<lparr>imdbId = JStr i, tmdbId = JNum b\<rparr>, [Details ''tv'' b]))"
proof (intro conjI impI)
  assume "a \<noteq> [] \<and> b \<noteq> 0"
  then show "completeIds fetch (Some a) (Some b) media_type =
        Inr (\<lparr>imdbId = JStr a, tmdbId = JNum b\<rparr>, [])"
    by (simp add: completeIds_def present_string_def present_number_def)
next
  assume h: "a \<noteq> [] \<and> take 2 a = ''tt'' \<and> (tmdb_id = None \<or> tmdb_id = Some 0) \<and>
    fetch (Find a) = Resolved response \<and> ok response \<and> body response = Some data \<and>
    get data ''movie_results'' = Inr (JArr (m # ms)) \<and> get m ''id'' = Inr (JNum n)"
  then have m: "m \<noteq> JNull" "m \<noteq> JUndefined" and id: "opt_chain m ''id'' = JNum n"
    by (auto simp: opt_chain_def)
  have "imdb_try fetch a = Inr \<lparr>lookup_result.tmdbId = opt_chain m ''id'', type = JStr ''movie''\<rparr>"
    by (rule imdb_try_movie[where fetch = fetch and ms = ms and response = response and data = data])
      (use h m in blast)+
  with h have "imdbToTmdb fetch (Some a) =
      Inr (\<lparr>lookup_result.tmdbId = opt_chain m ''id'', type = JStr ''movie''\<rparr>, [Find a])"
    by (intro imdbToTmdb_valid) simp_all
  with h id show "completeIds fetch (Some a) tmdb_id media_type =
        Inr (\<lparr>imdbId = JStr a, tmdbId = JNum n\<rparr>, [Find a])"
    by (auto simp: completeIds_def present_string_def present_number_def thenE_def)
next
  assume h: "(imdb_id = None \<or> imdb_id = Some []) \<and> b \<noteq> 0 \<and>
    fetch (Details ''tv'' b) = Resolved response' \<and> ok response' \<and>
    body response' = Some data' \<and>
    get data' ''external_ids'' = Inr ext \<and> get ext ''imdb_id'' = Inr (JStr i) \<and> i \<noteq> []"
  then have ext: "truthy ext"
    using get_falsy[of ext "''imdb_id''" "JStr i"] by auto
  from h have i: "truthy (JStr i)" by simp
  have "tmdb_try fetch b ''tv'' = Inr (JStr i)"
    by (rule tmdb_try_external[where fetch = fetch and response = response' and data = data'
          and ext = ext])
      (use h ext i in blast)+
  with h have "tmdbToImdb fetch (Some b) (Some ''series'') = Inr (JStr i, [Details ''tv'' b])"
    by (simp add: tmdbToImdb_def)
  with h show "completeIds fetch imdb_id (Some b) (Some ''series'') =
        Inr (\<lparr>imdbId = JStr i, tmdbId = JNum b\<rparr>, [Details ''tv'' b])"
    by (auto simp: completeIds_def present_string_def present_number_def thenE_def)
qed

theorem completeIds_paths_witness:
  "completeIds tmdb_service (Some ''tt0111161'') (Some 278) (Some ''movie'') =
     Inr (\<lparr>imdbId = JStr ''tt0111161'', tmdbId = JNum 278\<rparr>, []) \<and>
   completeIds tmdb_service (Some ''tt0111161'') None (Some ''movie'') =
     Inr (\<lparr>imdbId = JStr ''tt0111161'', tmdbId = JNum 278\<rparr>, [Find ''tt0111161'']) \<and>
   completeIds tmdb_service None (Some 1396) (Some ''series'') =
     Inr (\<lparr>imdbId = JStr ''tt0903747'', tmdbId = JNum 1396\<rparr>, [Details ''tv'' 1396])"
proof -
  note t = completeIds_paths[where fetch = tmdb_service and a = "''tt0111161''" and b = 1396
      and tmdb_id = None and imdb_id = None
      and response = "Response 200 (Some find_response)" and data = find_response
      and m = "JObj [(''id'', JNum 278)]" and ms = "[]" and n = 278
      and response' = "Response 200 (Some details_response)" and data' = details_response
      and ext = "JObj [(''imdb_id'', JStr ''tt0903747'')]" and i = "''tt0903747''"]
  note u = completeIds_paths[where fetch = tmdb_service and a = "''tt0111161''" and b = 278
      and media_type = "Some ''movie''", THEN conjunct1]
  have f: "tmdb_service (Find ''tt0111161'') = Resolved (Response 200 (Some find_response))"
    by (simp add: tmdb_service_def)
  have d: "tmdb_service (Details ''tv'' 1396) = Resolved (Response 200 (Some details_response))"
    by (simp add: tmdb_service_def)
  have g: "get find_response ''movie_results'' = Inr (JArr [JObj [(''id'', JNum 278)]])"
    "get details_response ''external_ids'' = Inr (JObj [(''imdb_id'', JStr ''tt0903747'')])"
    by (simp_all add: find_response_def details_response_def)
  from u have 1: "completeIds tmdb_service (Some ''tt0111161'') (Some 278) (Some ''movie'') =
     Inr (\<lparr>imdbId = JStr ''tt0111161'', tmdbId = JNum 278\<rparr>, [])"
    by simp
  from t[THEN conjunct2, THEN conjunct1, of "Some ''movie''"] f g
  have 2: "completeIds tmdb_service (Some ''tt0111161'') None (Some ''movie'') =
     Inr (\<lparr>imdbId = JStr ''tt0111161'', tmdbId = JNum 278\<rparr>, [Find ''tt0111161''])"
    by (simp add: ok_def)
  from t[THEN conjunct2, THEN conjunct2] d g
  have 3: "completeIds tmdb_service None (Some 1396) (Some ''series'') =
     Inr (\<lparr>imdbId = JStr ''tt0903747'', tmdbId = JNum 1396\<rparr>, [Details ''tv'' 1396])"
    by (simp add: ok_def)
  from 1 2 3 show ?thesis by blast
qed

end
